theory Spec2Isabelle
  imports Main "HOL-Library.AList" "HOL-Library.Sublist"
begin

section \<open>Python values used by changelog.py\<close>

text \<open>
  A Python \<open>str\<close> is modelled as a \<open>string\<close>; a \<open>char\<close> stands for a code point
  below 256, so the tables below list the members of Python's character classes in that
  range. Exceptions are values of \<open>py_error\<close>; an operation that can raise returns
  \<open>py_error + 'a\<close>.
\<close>

datatype py_error = KeyError | IndexError | ValueError | EOFError

definition NL :: char where
  "NL = CHR 0x0A"

text \<open>\<open>str.lower()\<close>: A-Z and the upper-case letters U+00C0..U+00DE (not U+00D7).\<close>

definition lower_char :: "char \<Rightarrow> char" where
  "lower_char c = (let n = (of_char c :: nat) in
     if (65 \<le> n \<and> n \<le> 90) \<or> (192 \<le> n \<and> n \<le> 222 \<and> n \<noteq> 215)
     then char_of (n + 32) else c)"

definition lower :: "string \<Rightarrow> string" where
  "lower s = map lower_char s"

text \<open>\<open>str.isspace()\<close> on one character, the set \<open>str.strip()\<close> removes.\<close>

definition is_space :: "char \<Rightarrow> bool" where
  "is_space c = (c \<in> set [CHR 0x09, CHR 0x0A, CHR 0x0B, CHR 0x0C, CHR 0x0D, CHR 0x1C,
     CHR 0x1D, CHR 0x1E, CHR 0x1F, CHR 0x20, CHR 0x85, CHR 0xA0])"

definition strip :: "string \<Rightarrow> string" where
  "strip s = rev (dropWhile is_space (rev (dropWhile is_space s)))"

text \<open>\<open>sub in s\<close> on strings.\<close>

fun contains :: "string \<Rightarrow> string \<Rightarrow> bool" where
  "contains [] sub = (sub = [])"
| "contains (c # cs) sub = (prefix sub (c # cs) \<or> contains cs sub)"

text \<open>\<open>str.isdigit()\<close>: the ASCII digits and the superscripts U+00B2, U+00B3, U+00B9;
  \<open>int(s)\<close> accepts only the former and raises ValueError otherwise.\<close>

definition is_ascii_digit :: "char \<Rightarrow> bool" where
  "is_ascii_digit c = (c \<in> set ''0123456789'')"

definition isdigit :: "string \<Rightarrow> bool" where
  "isdigit s = (s \<noteq> [] \<and> list_all (\<lambda>c. is_ascii_digit c \<or> c \<in> set [CHR 0xB2, CHR 0xB3, CHR 0xB9]) s)"

definition digit_val :: "char \<Rightarrow> nat" where
  "digit_val c = (of_char c :: nat) - 48"

definition py_int :: "string \<Rightarrow> py_error + nat" where
  "py_int s = (if s \<noteq> [] \<and> list_all is_ascii_digit s
     then Inr (foldl (\<lambda>acc c. 10 * acc + digit_val c) 0 s) else Inl ValueError)"

text \<open>\<open>s.split(',')\<close>.\<close>

fun split_on :: "char \<Rightarrow> string \<Rightarrow> string list" where
  "split_on sep [] = [[]]"
| "split_on sep (c # cs) =
     (if c = sep then [] # split_on sep cs
      else (case split_on sep cs of [] \<Rightarrow> [[c]] | p # ps \<Rightarrow> (c # p) # ps))"

text \<open>\<open>str.splitlines()\<close>: a line ends at LF, CR, CR LF, VT, FF, FS, GS, RS or NEL; the
  terminators are dropped and a final terminator opens no further line.\<close>

definition is_linebreak :: "char \<Rightarrow> bool" where
  "is_linebreak c = (c \<in> set [CHR 0x0A, CHR 0x0B, CHR 0x0C, CHR 0x0D, CHR 0x1C, CHR 0x1D,
     CHR 0x1E, CHR 0x85])"

fun splitlines_acc :: "string \<Rightarrow> string \<Rightarrow> string list" where
  "splitlines_acc cur [] = (if cur = [] then [] else [cur])"
| "splitlines_acc cur [c] = (if is_linebreak c then [cur] else [cur @ [c]])"
| "splitlines_acc cur (c # d # cs) =
     (if c = CHR 0x0D \<and> d = CHR 0x0A then cur # splitlines_acc [] cs
      else if is_linebreak c then cur # splitlines_acc [] (d # cs)
      else splitlines_acc (cur @ [c]) (d # cs))"

definition splitlines :: "string \<Rightarrow> string list" where
  "splitlines s = splitlines_acc [] s"

text \<open>\<open>sep.join(parts)\<close> with \<open>sep\<close> the newline.\<close>

fun join_nl :: "string list \<Rightarrow> string" where
  "join_nl [] = []"
| "join_nl [l] = l"
| "join_nl (l # m # ls) = l @ NL # join_nl (m # ls)"

subsection \<open>Dictionaries with string keys\<close>

text \<open>
  A \<open>dict\<close> is an association list in insertion order: \<open>map_of\<close> reads a key,
  \<open>AList.update\<close> overwrites it in place or appends it, \<open>AList.delete\<close> is \<open>del\<close>.
\<close>

definition has_key :: "(string \<times> 'v) list \<Rightarrow> string \<Rightarrow> bool" where
  "has_key d k = (map_of d k \<noteq> None)"

section \<open>Clock readings and their formats\<close>

text \<open>
  A value of \<open>datetime.now()\<close>. The fields are in the ranges of Python's \<open>datetime\<close>
  (year up to 9999, microsecond up to 999999), where every format below has fixed width.
\<close>

record datetime =
  year :: nat
  month :: nat
  day :: nat
  hour :: nat
  minute :: nat
  second :: nat
  microsecond :: nat

definition digit_char :: "nat \<Rightarrow> char" where
  "digit_char n = ''0123456789'' ! (n mod 10)"

text \<open>The decimal numeral of \<open>k\<close>, zero-padded to \<open>w\<close> digits.\<close>

primrec pad :: "nat \<Rightarrow> nat \<Rightarrow> string" where
  "pad 0 k = []"
| "pad (Suc w) k = pad w (k div 10) @ [digit_char k]"

text \<open>\<open>strftime('%Y-%m-%d')\<close>\<close>

definition strftime_date :: "datetime \<Rightarrow> string" where
  "strftime_date t = pad 4 (year t) @ ''-'' @ pad 2 (month t) @ ''-'' @ pad 2 (day t)"

text \<open>\<open>isoformat()\<close>: the fraction is left out when the microsecond is 0.\<close>

definition isoformat :: "datetime \<Rightarrow> string" where
  "isoformat t = strftime_date t @ ''T'' @ pad 2 (hour t) @ '':'' @ pad 2 (minute t) @ '':''
     @ pad 2 (second t)
     @ (if microsecond t = 0 then [] else ''.'' @ pad 6 (microsecond t))"

text \<open>\<open>strftime("%Y%m%d%H%M%S%f")\<close>\<close>

definition strftime_compact :: "datetime \<Rightarrow> string" where
  "strftime_compact t = pad 4 (year t) @ pad 2 (month t) @ pad 2 (day t) @ pad 2 (hour t)
     @ pad 2 (minute t) @ pad 2 (second t) @ pad 6 (microsecond t)"

text \<open>\<open>_generate_id\<close>, as a function of the clock reading it makes: the compact format
  without its last three characters (\<open>[:-3]\<close>), after \<open>chg_\<close>.\<close>

definition generate_id :: "datetime \<Rightarrow> string" where
  "generate_id t = ''chg_'' @ (let s = strftime_compact t in take (length s - 3) s)"

text \<open>The timestamp of second granularity of a clock reading.\<close>

definition same_second :: "datetime \<Rightarrow> datetime \<Rightarrow> bool" where
  "same_second a b = (year a = year b \<and> month a = month b \<and> day a = day b \<and> hour a = hour b
     \<and> minute a = minute b \<and> second a = second b)"

section \<open>The data model\<close>

text \<open>A value of the configuration file and of the \<open>project\<close> field.\<close>

datatype jvalue = JStr string | JBool bool | JInt int

type_synonym config = "(string \<times> (string \<times> jvalue) list) list"

text \<open>A change entry; the key \<open>id\<close> is the field \<open>entry_id\<close>.\<close>

record change_entry =
  entry_id :: string
  description :: string
  timestamp :: string
  author :: "string option"
  status :: string

type_synonym changes = "(string \<times> change_entry list) list"

text \<open>The document of unreleased.json; \<open>metadata.total_changes\<close> is the field
  \<open>total_changes\<close>.\<close>

record pending_doc =
  project :: jvalue
  created :: string
  last_modified :: string
  changes :: changes
  total_changes :: int

text \<open>The document of one release file.\<close>

record release_record =
  version :: string
  date :: string
  release_timestamp :: string
  release_notes :: string
  release_changes :: changes
  release_total_changes :: int

text \<open>unreleased.json is absent, is not JSON, or holds a document.\<close>

datatype pending_file = Missing | Corrupt | Stored pending_doc

text \<open>
  The manager with the files it owns. \<open>clock\<close> gives the successive values of
  \<open>datetime.now()\<close> and \<open>reads\<close> counts the readings made; \<open>stdin\<close> holds the lines
  \<open>input()\<close> will return; \<open>config_dict\<close> is the loaded configuration and \<open>config_file\<close>
  what config.json holds; \<open>release_files\<close> is the releases directory by file name;
  \<open>git_works\<close> says whether the call of git succeeds and \<open>git_tags\<close> lists the tags
  made. Printed output is not modelled, and writing a file is taken to succeed.
\<close>

record world =
  clock :: "nat \<Rightarrow> datetime"
  reads :: nat
  stdin :: "string list"
  config_dict :: config
  config_file :: "config option"
  changelog_file :: "string option"
  unreleased_file :: pending_file
  release_files :: "(string \<times> release_record) list"
  git_works :: bool
  git_tags :: "(string \<times> string) list"

definition now :: "world \<Rightarrow> datetime \<times> world" where
  "now w = (clock w (reads w), w\<lparr>reads := Suc (reads w)\<rparr>)"

definition input_line :: "world \<Rightarrow> (py_error + string) \<times> world" where
  "input_line w = (case stdin w of [] \<Rightarrow> (Inl EOFError, w)
     | l # ls \<Rightarrow> (Inr l, w\<lparr>stdin := ls\<rparr>))"

definition change_types :: "(string \<times> string) list" where
  "change_types = [(''added'', ''### Added''), (''changed'', ''### Changed''),
     (''deprecated'', ''### Deprecated''), (''removed'', ''### Removed''),
     (''fixed'', ''### Fixed''), (''security'', ''### Security'')]"

text \<open>\<open>self.change_types.keys()\<close>\<close>

definition change_type_keys :: "string list" where
  "change_type_keys = map fst change_types"

section \<open>The pending-change store\<close>

definition project_name :: "config \<Rightarrow> py_error + jvalue" where
  "project_name c = (case map_of c ''project'' of None \<Rightarrow> Inl KeyError
     | Some sec \<Rightarrow> (case map_of sec ''name'' of None \<Rightarrow> Inl KeyError | Some v \<Rightarrow> Inr v))"

definition empty_changes :: changes where
  "empty_changes = [(''added'', []), (''changed'', []), (''deprecated'', []),
     (''removed'', []), (''fixed'', []), (''security'', [])]"

definition save_unreleased_json :: "pending_doc \<Rightarrow> world \<Rightarrow> world" where
  "save_unreleased_json data w = (let (t, w1) = now w in
     w1\<lparr>unreleased_file := Stored (data\<lparr>last_modified := isoformat t\<rparr>)\<rparr>)"

definition init_unreleased_json :: "world \<Rightarrow> (py_error + unit) \<times> world" where
  "init_unreleased_json w = (case project_name (config_dict w) of Inl e \<Rightarrow> (Inl e, w)
     | Inr p \<Rightarrow>
         (let (t1, w1) = now w; (t2, w2) = now w1;
              default_data = \<lparr>project = p, created = isoformat t1,
                last_modified = isoformat t2, changes = empty_changes, total_changes = 0\<rparr>
          in (Inr (), save_unreleased_json default_data w2)))"

text \<open>\<open>_load_unreleased_json\<close>: a missing or unreadable file is initialised and read
  again.\<close>

function load_unreleased_json :: "world \<Rightarrow> (py_error + pending_doc) \<times> world" where
  "load_unreleased_json w = (case unreleased_file w of Stored d \<Rightarrow> (Inr d, w)
     | Missing \<Rightarrow> (case init_unreleased_json w of (Inl e, w') \<Rightarrow> (Inl e, w')
         | (Inr u, w') \<Rightarrow> load_unreleased_json w')
     | Corrupt \<Rightarrow> (case init_unreleased_json w of (Inl e, w') \<Rightarrow> (Inl e, w')
         | (Inr u, w') \<Rightarrow> load_unreleased_json w'))"
  by pat_completeness auto
termination
  by (relation "measure (\<lambda>w. case unreleased_file w of Stored d \<Rightarrow> 0 | Missing \<Rightarrow> 1 | Corrupt \<Rightarrow> 1)")
    (auto simp: init_unreleased_json_def save_unreleased_json_def now_def Let_def
       split: sum.splits)

declare load_unreleased_json.simps [simp del]

text \<open>\<open>sum(len(changes) for changes in data['changes'].values())\<close>\<close>

definition count_changes :: "changes \<Rightarrow> int" where
  "count_changes chs = int (sum_list (map (\<lambda>kv. length (snd kv)) chs))"

definition add :: "string \<Rightarrow> string \<Rightarrow> string option \<Rightarrow> world \<Rightarrow> (py_error + bool) \<times> world" where
  "add change_type descr auth w =
     (if \<not> has_key change_types change_type then (Inr False, w)
      else (case load_unreleased_json w of (Inl e, w1) \<Rightarrow> (Inl e, w1)
        | (Inr data, w1) \<Rightarrow>
            (let (t1, w2) = now w1; (t2, w3) = now w2;
                 entry = \<lparr>entry_id = generate_id t1, description = descr,
                   timestamp = isoformat t2, author = auth, status = ''pending''\<rparr>;
                 chs = (case map_of (changes data) change_type of
                     Some l \<Rightarrow> AList.update change_type (l @ [entry]) (changes data)
                   | None \<Rightarrow> AList.update change_type [entry] (changes data));
                 data' = data\<lparr>changes := chs, total_changes := count_changes chs\<rparr>
             in (Inr True, save_unreleased_json data' w3))))"

section \<open>Removal\<close>

text \<open>\<open>data['changes'].get(ct, [])\<close>\<close>

definition get_list :: "changes \<Rightarrow> string \<Rightarrow> change_entry list" where
  "get_list chs ct = (case map_of chs ct of None \<Rightarrow> [] | Some l \<Rightarrow> l)"

text \<open>An optional string argument that Python takes as true: given and not empty.\<close>

definition truthy :: "string option \<Rightarrow> bool" where
  "truthy a = (case a of None \<Rightarrow> False | Some s \<Rightarrow> s \<noteq> [])"

text \<open>
  The inner loop of \<open>remove\<close> over the category keys, for the entry at position \<open>i\<close> of
  category \<open>ctype\<close>: it carries \<open>match\<close> and \<open>global_idx\<close> and stops at \<open>ctype\<close>.
\<close>

fun global_scan :: "string list \<Rightarrow> changes \<Rightarrow> string \<Rightarrow> nat \<Rightarrow> int \<Rightarrow> bool \<Rightarrow> int \<Rightarrow> bool \<times> int" where
  "global_scan [] chs ctype i ix match global_idx = (match, global_idx)"
| "global_scan (ct # cts) chs ctype i ix match global_idx =
     (if ct = ctype then (if int i = ix - 1 then (match, global_idx) else (False, global_idx))
      else global_scan cts chs ctype i ix match (global_idx + int (length (get_list chs ct))))"

definition entry_matches :: "changes \<Rightarrow> string option \<Rightarrow> int option \<Rightarrow> string \<Rightarrow> nat \<Rightarrow> change_entry \<Rightarrow> bool" where
  "entry_matches chs pattern index ctype i change =
     (let match = (case pattern of None \<Rightarrow> True
            | Some p \<Rightarrow> \<not> (p \<noteq> [] \<and> \<not> contains (lower (description change)) (lower p)))
      in (case index of None \<Rightarrow> match
          | Some ix \<Rightarrow> (let (m, global_idx) = global_scan change_type_keys chs ctype i ix match 1
                       in if global_idx \<noteq> ix then False else m)))"

record removal_item =
  item_type :: string
  item_index :: nat
  item_change :: change_entry

text \<open>The list \<open>changes_to_remove\<close> that \<open>remove\<close> builds.\<close>

definition changes_to_remove :: "changes \<Rightarrow> string option \<Rightarrow> string option \<Rightarrow> int option \<Rightarrow> removal_item list" where
  "changes_to_remove chs change_type pattern index =
     concat (map (\<lambda>ctype.
       if truthy change_type \<and> Some ctype \<noteq> change_type then []
       else map (\<lambda>(i, change). \<lparr>item_type = ctype, item_index = i, item_change = change\<rparr>)
              (filter (\<lambda>(i, change). entry_matches chs pattern index ctype i change)
                 (enumerate 0 (get_list chs ctype))))
       change_type_keys)"

text \<open>The hand-picked numbers: \<open>[int(n.strip()) - 1 for n in numbers.split(',') if
  n.strip().isdigit() and 1 <= int(n.strip()) <= len(changes_to_remove)]\<close>\<close>

fun parse_selection :: "nat \<Rightarrow> string list \<Rightarrow> py_error + nat list" where
  "parse_selection len [] = Inr []"
| "parse_selection len (n # ns) =
     (if isdigit (strip n) then
        (case py_int (strip n) of Inl e \<Rightarrow> Inl e
         | Inr v \<Rightarrow> (if 1 \<le> v \<and> v \<le> len
             then (case parse_selection len ns of Inl e \<Rightarrow> Inl e | Inr r \<Rightarrow> Inr ((v - 1) # r))
             else parse_selection len ns))
      else parse_selection len ns)"

text \<open>The dialogue of \<open>remove\<close> for \<open>len\<close> candidates: \<open>Some\<close> of \<open>indices_to_remove\<close>,
  or \<open>None\<close> where \<open>remove\<close> returns False.\<close>

definition choose_indices :: "nat \<Rightarrow> world \<Rightarrow> (py_error + nat list option) \<times> world" where
  "choose_indices len w =
     (if len = 1 then
        (case input_line w of (Inl e, w1) \<Rightarrow> (Inl e, w1)
         | (Inr confirm, w1) \<Rightarrow>
             (if lower confirm \<noteq> ''y'' then (Inr None, w1) else (Inr (Some [0]), w1)))
      else
        (case input_line w of (Inl e, w1) \<Rightarrow> (Inl e, w1)
         | (Inr choice, w1) \<Rightarrow>
             (if strip choice = ''1'' then (Inr (Some [0..<len]), w1)
              else if strip choice = ''2'' then
                (case input_line w1 of (Inl e, w2) \<Rightarrow> (Inl e, w2)
                 | (Inr numbers, w2) \<Rightarrow>
                     (case parse_selection len (split_on (CHR '','') (strip numbers)) of
                        Inl e \<Rightarrow> (Inl e, w2)
                      | Inr selected \<Rightarrow>
                          (if selected = [] then (Inr None, w2) else (Inr (Some selected), w2))))
              else (Inr None, w1))))"

text \<open>\<open>xs.pop(i)\<close> for \<open>i \<ge> 0\<close>, giving the remaining list.\<close>

definition list_pop :: "'a list \<Rightarrow> nat \<Rightarrow> py_error + 'a list" where
  "list_pop xs i = (if i < length xs then Inr (take i xs @ drop (Suc i) xs) else Inl IndexError)"

text \<open>The deleting loop of \<open>remove\<close> over the sorted indices.\<close>

fun apply_removals :: "nat list \<Rightarrow> removal_item list \<Rightarrow> changes \<Rightarrow> py_error + changes" where
  "apply_removals [] cands chs = Inr chs"
| "apply_removals (idx # idxs) cands chs =
     (if length cands \<le> idx then Inl IndexError
      else (let item = cands ! idx in
        (case map_of chs (item_type item) of None \<Rightarrow> Inl KeyError
         | Some l \<Rightarrow>
             (case list_pop l (item_index item) of Inl e \<Rightarrow> Inl e
              | Inr l' \<Rightarrow>
                  (let chs1 = AList.update (item_type item) l' chs
                   in apply_removals idxs cands
                        (if l' = [] then AList.delete (item_type item) chs1 else chs1))))))"

text \<open>\<open>sorted(indices_to_remove, reverse=True)\<close>\<close>

definition sorted_reverse :: "nat list \<Rightarrow> nat list" where
  "sorted_reverse xs = rev (sort xs)"

definition remove :: "string option \<Rightarrow> string option \<Rightarrow> int option \<Rightarrow> world \<Rightarrow> (py_error + bool) \<times> world" where
  "remove change_type pattern index w =
     (case load_unreleased_json w of (Inl e, w1) \<Rightarrow> (Inl e, w1)
      | (Inr data, w1) \<Rightarrow>
          (let cands = changes_to_remove (changes data) change_type pattern index in
           if cands = [] then (Inr False, w1)
           else (case choose_indices (length cands) w1 of (Inl e, w2) \<Rightarrow> (Inl e, w2)
             | (Inr None, w2) \<Rightarrow> (Inr False, w2)
             | (Inr (Some indices_to_remove), w2) \<Rightarrow>
                 (case apply_removals (sorted_reverse indices_to_remove) cands (changes data) of
                    Inl e \<Rightarrow> (Inl e, w2)
                  | Inr chs \<Rightarrow>
                      (Inr True, save_unreleased_json
                         (data\<lparr>changes := chs, total_changes := count_changes chs\<rparr>) w2)))))"

section \<open>Release\<close>

text \<open>The lines of one category in the release block.\<close>

definition change_line :: "change_entry \<Rightarrow> string" where
  "change_line change = ''- '' @ description change
     @ (if truthy (author change) then '' ('' @ the (author change) @ '')'' else []) @ [NL]"

text \<open>The sections of the categories that hold entries, in the order of
  \<open>change_types\<close>.\<close>

definition category_sections :: "changes \<Rightarrow> string" where
  "category_sections chs =
     concat (map (\<lambda>(change_type, heading).
         if has_key chs change_type \<and> get_list chs change_type \<noteq> []
         then [NL] @ heading @ [NL] @ concat (map change_line (get_list chs change_type))
         else []) change_types)"

definition release_block :: "string \<Rightarrow> string \<Rightarrow> string \<Rightarrow> changes \<Rightarrow> string" where
  "release_block ver today notes chs =
     [NL] @ ''## ['' @ ver @ ''] - '' @ today @ [NL]
     @ (if notes \<noteq> [] then [NL] @ notes @ [NL] else [])
     @ category_sections chs"

text \<open>
  The loop of \<open>_update_changelog_md\<close> over the lines, carrying \<open>new_lines\<close> and
  \<open>inserted\<close>. The \<open>while\<close> inside it only advances a local \<open>i\<close> that is bounded by
  \<open>len(lines)\<close> and read nowhere, so it is left out.
\<close>

fun scan_lines :: "string list \<Rightarrow> string \<Rightarrow> string list \<Rightarrow> bool \<Rightarrow> string list \<times> bool" where
  "scan_lines [] block new_lines inserted = (new_lines, inserted)"
| "scan_lines (line # lines) block new_lines inserted =
     (if strip line = ''## [Unreleased]'' \<and> \<not> inserted
      then scan_lines lines block (new_lines @ [line] @ [block]) True
      else scan_lines lines block (new_lines @ [line]) inserted)"

text \<open>The text \<open>_update_changelog_md\<close> writes, from the text it read and the block.\<close>

definition insert_release :: "string \<Rightarrow> string \<Rightarrow> string" where
  "insert_release content block =
     (let (new_lines, inserted) = scan_lines (splitlines content) block [] False
      in join_nl (if \<not> inserted then new_lines @ [block] else new_lines))"

definition default_changelog :: string where
  "default_changelog = ''# Changelog'' @ [NL, NL] @ ''## [Unreleased]'' @ [NL]"

definition update_changelog_md :: "string \<Rightarrow> string \<Rightarrow> changes \<Rightarrow> world \<Rightarrow> world" where
  "update_changelog_md ver notes chs w =
     (let content = (case changelog_file w of Some c \<Rightarrow> c | None \<Rightarrow> default_changelog);
          (today, w1) = now w
      in w1\<lparr>changelog_file :=
           Some (insert_release content (release_block ver (strftime_date today) notes chs))\<rparr>)"

definition create_git_tag :: "string \<Rightarrow> string \<Rightarrow> world \<Rightarrow> world" where
  "create_git_tag ver message w =
     (let tag_message = ''Release '' @ ver @ (if message \<noteq> [] then '': '' @ message else [])
      in if git_works w then w\<lparr>git_tags := git_tags w @ [(ver, tag_message)]\<rparr> else w)"

definition release_file_name :: "string \<Rightarrow> string" where
  "release_file_name version_clean = ''release_'' @ version_clean @ ''.json''"

definition release :: "string \<Rightarrow> string \<Rightarrow> bool \<Rightarrow> world \<Rightarrow> (py_error + bool) \<times> world" where
  "release ver notes tag_git w =
     (let version_display = ver;
          version_clean = (if prefix ''v'' ver then drop 1 ver else ver)
      in (case load_unreleased_json w of (Inl e, w1) \<Rightarrow> (Inl e, w1)
        | (Inr data, w1) \<Rightarrow>
            (if total_changes data = 0 then (Inr False, w1)
             else
               (let (t1, w2) = now w1; (t2, w3) = now w2;
                    release_data = \<lparr>version = version_display, date = strftime_date t1,
                      release_timestamp = isoformat t2, release_notes = notes,
                      release_changes = changes data,
                      release_total_changes = total_changes data\<rparr>;
                    w4 = w3\<lparr>release_files :=
                      AList.update (release_file_name version_clean) release_data (release_files w3)\<rparr>;
                    w5 = update_changelog_md version_display notes (changes data) w4
                in (case init_unreleased_json w5 of (Inl e, w6) \<Rightarrow> (Inl e, w6)
                    | (Inr u, w6) \<Rightarrow>
                        (Inr True, if tag_git then create_git_tag version_display notes w6 else w6))))))"

section \<open>Configuration\<close>

definition save_config :: "world \<Rightarrow> world" where
  "save_config w = w\<lparr>config_file := Some (config_dict w)\<rparr>"

text \<open>\<open>self.config[section][key] = value\<close>\<close>

definition set_field :: "string \<Rightarrow> string \<Rightarrow> jvalue \<Rightarrow> config \<Rightarrow> py_error + config" where
  "set_field section key v c = (case map_of c section of None \<Rightarrow> Inl KeyError
     | Some sec \<Rightarrow> Inr (AList.update section (AList.update key v sec) c))"

text \<open>\<open>update_path\<close> and \<open>update_setting\<close>, with the section they look the key up in.\<close>

definition update_checked :: "string \<Rightarrow> string \<Rightarrow> jvalue \<Rightarrow> world \<Rightarrow> (py_error + unit) \<times> world" where
  "update_checked section key v w = (case map_of (config_dict w) section of None \<Rightarrow> (Inl KeyError, w)
     | Some sec \<Rightarrow>
         (if has_key sec key
          then (Inr (), save_config (w\<lparr>config_dict := AList.update section (AList.update key v sec) (config_dict w)\<rparr>))
          else (Inl ValueError, w)))"

definition update_path :: "string \<Rightarrow> string \<Rightarrow> world \<Rightarrow> (py_error + unit) \<times> world" where
  "update_path key relative_path w = update_checked ''paths'' key (JStr relative_path) w"

definition update_setting :: "string \<Rightarrow> jvalue \<Rightarrow> world \<Rightarrow> (py_error + unit) \<times> world" where
  "update_setting key v w = update_checked ''settings'' key v w"

text \<open>\<open>key.split('.', 1)\<close> for a key with a dot.\<close>

definition split_key :: "string \<Rightarrow> string \<times> string" where
  "split_key key = (takeWhile (\<lambda>c. c \<noteq> CHR ''.'') key, drop 1 (dropWhile (\<lambda>c. c \<noteq> CHR ''.'') key))"

text \<open>The value \<open>config_update\<close> passes to \<open>update_setting\<close>.\<close>

definition coerce_setting :: "string \<Rightarrow> py_error + jvalue" where
  "coerce_setting v =
     (if lower v = ''true'' \<or> lower v = ''false'' then Inr (JBool (lower v = ''true''))
      else if isdigit v then (case py_int v of Inl e \<Rightarrow> Inl e | Inr n \<Rightarrow> Inr (JInt (int n)))
      else Inr (JStr v))"

text \<open>\<open>config_update\<close>; every exception is caught and gives False.\<close>

definition config_update :: "string \<Rightarrow> string \<Rightarrow> world \<Rightarrow> bool \<times> world" where
  "config_update key v w =
     (let (section, subkey) = (if CHR ''.'' \<in> set key then split_key key else (''project'', key))
      in if \<not> has_key (config_dict w) section then (False, w)
         else if section = ''paths'' then
           (case update_path subkey v w of (Inl e, w1) \<Rightarrow> (False, w1) | (Inr u, w1) \<Rightarrow> (True, w1))
         else if section = ''settings'' then
           (case coerce_setting v of Inl e \<Rightarrow> (False, w)
            | Inr v' \<Rightarrow>
                (case update_setting subkey v' w of (Inl e, w1) \<Rightarrow> (False, w1)
                 | (Inr u, w1) \<Rightarrow> (True, w1)))
         else
           (case set_field section subkey (JStr v) (config_dict w) of Inl e \<Rightarrow> (False, w)
            | Inr c \<Rightarrow> (True, save_config (w\<lparr>config_dict := c\<rparr>))))"

section \<open>Sequences of commands\<close>

datatype command =
  Add string string "string option"
| Remove "string option" "string option" "int option"

text \<open>One command is one run of the program: an exception ends that run and the files
  stay as the run left them.\<close>

fun run_command :: "command \<Rightarrow> world \<Rightarrow> world" where
  "run_command (Add change_type descr auth) w = snd (add change_type descr auth w)"
| "run_command (Remove change_type pattern index) w = snd (remove change_type pattern index w)"

fun run_commands :: "command list \<Rightarrow> world \<Rightarrow> world" where
  "run_commands [] w = w"
| "run_commands (c # cs) w = run_commands cs (run_command c w)"

text \<open>The counter of the stored document agrees with its lists.\<close>

definition count_invariant :: "world \<Rightarrow> bool" where
  "count_invariant w = (case unreleased_file w of
       Stored d \<Rightarrow> total_changes d = count_changes (changes d)
     | Missing \<Rightarrow> False | Corrupt \<Rightarrow> False)"

section \<open>Well-formed inputs and examples\<close>

text \<open>A clock reading within the ranges of Python's \<open>datetime\<close>.\<close>

definition valid_datetime :: "datetime \<Rightarrow> bool" where
  "valid_datetime t = (year t < 10000 \<and> month t < 100 \<and> day t < 100 \<and> hour t < 100
     \<and> minute t < 100 \<and> second t < 100 \<and> microsecond t < 1000000)"

text \<open>A clock that advances by ten microseconds a reading, a default configuration, and
  a manager whose store holds given lists.\<close>

definition example_clock :: "nat \<Rightarrow> datetime" where
  "example_clock n = \<lparr>year = 2024, month = 5, day = 6, hour = 7, minute = 8, second = 9,
     microsecond = 6100 + 10 * n\<rparr>"

definition example_config :: config where
  "example_config = [(''project'', [(''name'', JStr ''demo''), (''version'', JStr ''0.0.0''),
       (''author'', JStr ''''), (''license'', JStr ''MIT'')]),
     (''paths'', [(''changelog'', JStr ''CHANGELOG.md''),
       (''unreleased'', JStr ''.changelog/unreleased.json''),
       (''releases'', JStr ''.changelog/releases'')]),
     (''settings'', [(''auto_backup'', JBool True), (''date_format'', JStr ''%Y-%m-%d''),
       (''time_format'', JStr ''%H:%M:%S''), (''git_integration'', JBool False)])]"

definition example_doc :: "changes \<Rightarrow> pending_doc" where
  "example_doc chs = \<lparr>project = JStr ''demo'', created = ''2024-05-06T07:00:00'',
     last_modified = ''2024-05-06T07:00:00'', changes = chs,
     total_changes = count_changes chs\<rparr>"

definition example_world :: "string list \<Rightarrow> changes \<Rightarrow> world" where
  "example_world inp chs = \<lparr>clock = example_clock, reads = 0, stdin = inp,
     config_dict = example_config, config_file = Some example_config,
     changelog_file = Some (''# Changelog'' @ [NL, NL] @ ''## [Unreleased]'' @ [NL]),
     unreleased_file = Stored (example_doc chs), release_files = [], git_works = False,
     git_tags = []\<rparr>"

definition example_entry :: "string \<Rightarrow> change_entry" where
  "example_entry d = \<lparr>entry_id = ''chg_20240506070000000'', description = d,
     timestamp = ''2024-05-06T07:00:00'', author = None, status = ''pending''\<rparr>"

text \<open>The store of the specification's example: two \<open>added\<close> entries, one \<open>fixed\<close>
  entry.\<close>

definition example_changes :: changes where
  "example_changes = [(''added'', [example_entry ''A'', example_entry ''B'']), (''changed'', []),
     (''deprecated'', []), (''removed'', []), (''fixed'', [example_entry ''C'']),
     (''security'', [])]"

section \<open>Entry ids\<close>

lemma length_pad: "length (pad w k) = w"
  by (induction w arbitrary: k) auto

text \<open>Evaluating the formats at numerals.\<close>

lemma pad_numeral: "pad (numeral k) n = pad (pred_numeral k) (n div 10) @ [digit_char n]"
proof -
  have "pad (Suc (pred_numeral k)) n = pad (pred_numeral k) (n div 10) @ [digit_char n]"
    by (rule pad.simps(2))
  then show ?thesis
    by (simp only: numeral_eq_Suc [symmetric])
qed

lemma pad_one: "pad 1 n = [digit_char n]"
  by simp

lemmas clock_format = isoformat_def strftime_date_def example_clock_def pad_numeral pad_one
  digit_char_def

lemma digit_char_inj: "a < 10 \<Longrightarrow> b < 10 \<Longrightarrow> digit_char a = digit_char b \<Longrightarrow> a = b"
proof -
  assume a: "a < 10" and b: "b < 10" and e: "digit_char a = digit_char b"
  have d: "distinct ''0123456789''" by simp
  have "''0123456789'' ! a = ''0123456789'' ! b"
    using a b e by (simp add: digit_char_def)
  with d a b show "a = b"
    by (simp add: nth_eq_iff_index_eq)
qed

lemma pad_inj: "a < 10 ^ w \<Longrightarrow> b < 10 ^ w \<Longrightarrow> pad w a = pad w b \<Longrightarrow> a = b"
proof (induction w arbitrary: a b)
  case 0
  then show ?case by simp
next
  case (Suc w)
  from Suc.prems(3) have p: "pad w (a div 10) = pad w (b div 10)" and
    q: "digit_char a = digit_char b" by simp_all
  have "a div 10 < 10 ^ w" "b div 10 < 10 ^ w"
    using Suc.prems(1,2) by (simp_all add: less_mult_imp_div_less mult.commute)
  with p Suc.IH have dv: "a div 10 = b div 10" by blast
  have "digit_char (a mod 10) = digit_char (b mod 10)"
    using q by (simp add: digit_char_def)
  then have "a mod 10 = b mod 10"
    by (intro digit_char_inj) simp_all
  with dv show ?case
    by (metis div_mult_mod_eq)
qed

lemma take_pad: "take w (pad (w + n) k) = pad w (k div 10 ^ n)"
proof (induction n arbitrary: k)
  case 0
  then show ?case by (simp add: length_pad)
next
  case (Suc n)
  have "take w (pad (Suc (w + n)) k) = take w (pad (w + n) (k div 10))"
    by (simp add: length_pad)
  also have "\<dots> = pad w (k div 10 div 10 ^ n)" by (rule Suc.IH)
  finally show ?case by (simp add: div_mult2_eq)
qed

lemma generate_id_eq:
  "generate_id t = ''chg_'' @ pad 4 (year t) @ pad 2 (month t) @ pad 2 (day t) @ pad 2 (hour t)
     @ pad 2 (minute t) @ pad 2 (second t) @ pad 3 (microsecond t div 1000)"
proof -
  have "take 3 (pad (3 + 3) (microsecond t)) = pad 3 (microsecond t div 10 ^ 3)"
    by (rule take_pad)
  then have "take 3 (pad 6 (microsecond t)) = pad 3 (microsecond t div 1000)"
    by simp
  then show ?thesis
    by (simp add: generate_id_def strftime_compact_def Let_def length_pad)
qed

text \<open>Ids are equal only for readings within the same millisecond.\<close>

lemma generate_id_distinct:
  assumes "valid_datetime a" "valid_datetime b" "generate_id a = generate_id b"
  shows "same_second a b \<and> microsecond a div 1000 = microsecond b div 1000"
proof -
  have e: "pad 4 (year a) = pad 4 (year b) \<and> pad 2 (month a) = pad 2 (month b)
      \<and> pad 2 (day a) = pad 2 (day b) \<and> pad 2 (hour a) = pad 2 (hour b)
      \<and> pad 2 (minute a) = pad 2 (minute b) \<and> pad 2 (second a) = pad 2 (second b)
      \<and> pad 3 (microsecond a div 1000) = pad 3 (microsecond b div 1000)"
    using assms(3) unfolding generate_id_eq by (simp add: length_pad)
  have "microsecond a div 1000 < 10 ^ 3" "microsecond b div 1000 < 10 ^ 3"
    using assms(1,2) by (auto simp: valid_datetime_def less_mult_imp_div_less)
  with e have "microsecond a div 1000 = microsecond b div 1000"
    using pad_inj by blast
  moreover have "year a = year b" "month a = month b" "day a = day b" "hour a = hour b"
    "minute a = minute b" "second a = second b"
    using e assms(1,2) by (auto simp: valid_datetime_def intro: pad_inj [of _ 4] pad_inj [of _ 2])
  ultimately show ?thesis by (simp add: same_second_def)
qed

text \<open>Two readings of one second, 100 microseconds apart, differ and get the same id.\<close>

lemma generate_id_collision:
  "\<lparr>year = 2024, month = 1, day = 2, hour = 3, minute = 4, second = 5, microsecond = 6100\<rparr>
     \<noteq> \<lparr>year = 2024, month = 1, day = 2, hour = 3, minute = 4, second = 5, microsecond = 6200\<rparr>
   \<and> same_second
       \<lparr>year = 2024, month = 1, day = 2, hour = 3, minute = 4, second = 5, microsecond = 6100\<rparr>
       \<lparr>year = 2024, month = 1, day = 2, hour = 3, minute = 4, second = 5, microsecond = 6200\<rparr>
   \<and> generate_id
       \<lparr>year = 2024, month = 1, day = 2, hour = 3, minute = 4, second = 5, microsecond = 6100\<rparr>
     = generate_id
       \<lparr>year = 2024, month = 1, day = 2, hour = 3, minute = 4, second = 5, microsecond = 6200\<rparr>"
  by (simp add: same_second_def generate_id_eq)

section \<open>Loading the store\<close>

lemma load_Stored: "unreleased_file w = Stored d \<Longrightarrow> load_unreleased_json w = (Inr d, w)"
  by (simp add: load_unreleased_json.simps)

text \<open>
  Claim C3: a release on a stored document whose \<open>total_changes\<close> is zero returns
  False and changes nothing: no release file is written, and the changelog document and the
  pending store stay as they were.
\<close>

theorem release_rejects_empty:
  assumes "unreleased_file w = Stored d" and "total_changes d = 0"
  shows "release ver notes tag_git w = (Inr False, w)"
  using assms by (simp add: release_def load_Stored)

theorem release_rejects_empty_witness:
  "unreleased_file (example_world [] empty_changes) = Stored (example_doc empty_changes)
   \<and> total_changes (example_doc empty_changes) = 0
   \<and> release ''1.0.0'' '''' False (example_world [] empty_changes)
       = (Inr False, example_world [] empty_changes)"
proof -
  have a: "unreleased_file (example_world [] empty_changes) = Stored (example_doc empty_changes)"
    by (simp add: example_world_def)
  have b: "total_changes (example_doc empty_changes) = 0"
    by (simp add: example_doc_def empty_changes_def count_changes_def)
  show ?thesis
    using a b release_rejects_empty [OF a b, of "''1.0.0''" "''''" False] by simp
qed

section \<open>Configuration updates\<close>

lemma split_key_project: "split_key (''project.'' @ subkey) = (''project'', subkey)"
  by (simp add: split_key_def)

lemma split_key_paths: "split_key (''paths.'' @ subkey) = (''paths'', subkey)"
  by (simp add: split_key_def)

lemma split_key_settings: "split_key (''settings.'' @ subkey) = (''settings'', subkey)"
  by (simp add: split_key_def)

lemma config_update_project_section:
  assumes "map_of (config_dict w) ''project'' = Some sec"
  shows "config_update (''project.'' @ subkey) v w =
    (True, w\<lparr>config_dict := AList.update ''project'' (AList.update subkey (JStr v) sec) (config_dict w),
              config_file := Some (AList.update ''project'' (AList.update subkey (JStr v) sec) (config_dict w))\<rparr>)"
  using assms split_key_project [of subkey]
  by (simp add: config_update_def has_key_def set_field_def save_config_def)

lemma config_update_no_dot:
  assumes "map_of (config_dict w) ''project'' = Some sec" and "CHR ''.'' \<notin> set key"
  shows "config_update key v w =
    (True, w\<lparr>config_dict := AList.update ''project'' (AList.update key (JStr v) sec) (config_dict w),
              config_file := Some (AList.update ''project'' (AList.update key (JStr v) sec) (config_dict w))\<rparr>)"
  using assms
  by (simp add: config_update_def has_key_def set_field_def save_config_def)

lemma config_update_paths_unknown:
  assumes "map_of (config_dict w) ''paths'' = Some sec" and "\<not> has_key sec subkey"
  shows "config_update (''paths.'' @ subkey) v w = (False, w)"
  using assms split_key_paths [of subkey]
  by (simp add: config_update_def has_key_def update_path_def update_checked_def)

lemma config_update_settings_unknown:
  assumes "map_of (config_dict w) ''settings'' = Some sec" and "\<not> has_key sec subkey"
  shows "config_update (''settings.'' @ subkey) v w = (False, w)"
  using assms split_key_settings [of subkey]
  by (simp add: config_update_def has_key_def update_setting_def
      update_checked_def split: sum.splits)

text \<open>
  Claim C10: where the configuration has a \<open>project\<close> section, \<open>config_update\<close>
  with a key \<open>project.<subkey>\<close>, or with a key without a dot, succeeds for every
  subkey, known or not: the value is stored under the subkey as a string, uncoerced, and the
  configuration is written to its file at once. The same subkey, when unknown to the
  \<open>paths\<close> or the \<open>settings\<close> section, is rejected there and nothing changes.
\<close>

theorem config_update_project_unvalidated:
  assumes "map_of (config_dict w) ''project'' = Some sec"
    and "key = ''project.'' @ subkey \<or> (CHR ''.'' \<notin> set key \<and> subkey = key)"
    and "config_update key v w = (ok, w')"
  shows "ok \<and> config_dict w' = AList.update ''project'' (AList.update subkey (JStr v) sec) (config_dict w)
    \<and> (\<exists>sec'. map_of (config_dict w') ''project'' = Some sec' \<and> map_of sec' subkey = Some (JStr v))
    \<and> config_file w' = Some (config_dict w')
    \<and> (\<forall>ps. map_of (config_dict w) ''paths'' = Some ps \<and> \<not> has_key ps subkey
          \<longrightarrow> config_update (''paths.'' @ subkey) v w = (False, w))
    \<and> (\<forall>ss. map_of (config_dict w) ''settings'' = Some ss \<and> \<not> has_key ss subkey
          \<longrightarrow> config_update (''settings.'' @ subkey) v w = (False, w))"
proof -
  let ?c = "AList.update ''project'' (AList.update subkey (JStr v) sec) (config_dict w)"
  have r: "config_update key v w = (True, w\<lparr>config_dict := ?c, config_file := Some ?c\<rparr>)"
    using assms(2)
  proof
    assume "key = ''project.'' @ subkey"
    then show ?thesis using config_update_project_section [OF assms(1)] by simp
  next
    assume "CHR ''.'' \<notin> set key \<and> subkey = key"
    then show ?thesis using config_update_no_dot [OF assms(1)] by simp
  qed
  with assms(3) have ok: ok and w': "w' = w\<lparr>config_dict := ?c, config_file := Some ?c\<rparr>"
    by simp_all
  have m: "map_of ?c ''project'' = Some (AList.update subkey (JStr v) sec)"
    by (simp add: update_conv')
  have n: "map_of (AList.update subkey (JStr v) sec) subkey = Some (JStr v)"
    by (simp add: update_conv')
  show ?thesis
    using ok w' m n config_update_paths_unknown config_update_settings_unknown by simp
qed

theorem config_update_project_unvalidated_witness:
  "map_of (config_dict (example_world [] empty_changes)) ''project''
     = Some [(''name'', JStr ''demo''), (''version'', JStr ''0.0.0''), (''author'', JStr ''''),
         (''license'', JStr ''MIT'')]
   \<and> \<not> has_key [(''name'', JStr ''demo''), (''version'', JStr ''0.0.0''), (''author'', JStr ''''),
         (''license'', JStr ''MIT'')] ''homepage''
   \<and> fst (config_update ''project.homepage'' ''42'' (example_world [] empty_changes))
   \<and> map_of (config_dict (snd (config_update ''project.homepage'' ''42'' (example_world [] empty_changes))))
        ''project''
     = Some [(''name'', JStr ''demo''), (''version'', JStr ''0.0.0''), (''author'', JStr ''''),
         (''license'', JStr ''MIT''), (''homepage'', JStr ''42'')]
   \<and> config_update ''paths.homepage'' ''42'' (example_world [] empty_changes)
       = (False, example_world [] empty_changes)
   \<and> config_update ''settings.homepage'' ''42'' (example_world [] empty_changes)
       = (False, example_world [] empty_changes)"
proof -
  let ?w = "example_world [] empty_changes"
  let ?sec = "[(''name'', JStr ''demo''), (''version'', JStr ''0.0.0''), (''author'', JStr ''''),
         (''license'', JStr ''MIT'')]"
  have a: "map_of (config_dict ?w) ''project'' = Some ?sec"
    by (simp add: example_world_def example_config_def)
  have b: "''project.homepage'' = ''project.'' @ ''homepage''
      \<or> (CHR ''.'' \<notin> set ''project.homepage'' \<and> ''homepage'' = ''project.homepage'')"
    by simp
  have c: "config_update ''project.homepage'' ''42'' ?w
      = (fst (config_update ''project.homepage'' ''42'' ?w),
         snd (config_update ''project.homepage'' ''42'' ?w))"
    by simp
  have p: "map_of (config_dict ?w) ''paths'' = Some [(''changelog'', JStr ''CHANGELOG.md''),
       (''unreleased'', JStr ''.changelog/unreleased.json''),
       (''releases'', JStr ''.changelog/releases'')]
     \<and> \<not> has_key [(''changelog'', JStr ''CHANGELOG.md''),
       (''unreleased'', JStr ''.changelog/unreleased.json''),
       (''releases'', JStr ''.changelog/releases'')] ''homepage''"
    by (simp add: example_world_def example_config_def has_key_def)
  have s: "map_of (config_dict ?w) ''settings'' = Some [(''auto_backup'', JBool True),
       (''date_format'', JStr ''%Y-%m-%d''), (''time_format'', JStr ''%H:%M:%S''),
       (''git_integration'', JBool False)]
     \<and> \<not> has_key [(''auto_backup'', JBool True),
       (''date_format'', JStr ''%Y-%m-%d''), (''time_format'', JStr ''%H:%M:%S''),
       (''git_integration'', JBool False)] ''homepage''"
    by (simp add: example_world_def example_config_def has_key_def)
  have h: "\<not> has_key ?sec ''homepage''"
    by (simp add: has_key_def)
  have u: "AList.update ''project'' (AList.update ''homepage'' (JStr ''42'') ?sec) (config_dict ?w)
     = (''project'', ?sec @ [(''homepage'', JStr ''42'')]) # tl (config_dict ?w)"
    by (simp add: example_world_def example_config_def)
  from config_update_project_unvalidated [OF a b c] p s h a u show ?thesis
    by simp
qed

section \<open>Inserting a release into the changelog\<close>

lemma scan_lines_inserted: "scan_lines ls b acc True = (acc @ ls, True)"
  by (induction ls arbitrary: acc) simp_all

lemma scan_lines_no_marker:
  "\<forall>l \<in> set ls. strip l \<noteq> ''## [Unreleased]'' \<Longrightarrow> scan_lines ls b acc False = (acc @ ls, False)"
  by (induction ls arbitrary: acc) simp_all

lemma scan_lines_first_marker:
  assumes "k < length ls" and "strip (ls ! k) = ''## [Unreleased]''"
    and "\<forall>j<k. strip (ls ! j) \<noteq> ''## [Unreleased]''"
  shows "scan_lines ls b acc False = (acc @ take (Suc k) ls @ [b] @ drop (Suc k) ls, True)"
  using assms
proof (induction ls arbitrary: acc k)
  case Nil
  then show ?case by simp
next
  case (Cons l ls)
  show ?case
  proof (cases k)
    case 0
    with Cons.prems show ?thesis by (simp add: scan_lines_inserted)
  next
    case (Suc k')
    from Cons.prems(3) Suc have l: "strip l \<noteq> ''## [Unreleased]''" by auto
    have r: "\<forall>j<k'. strip (ls ! j) \<noteq> ''## [Unreleased]''"
      using Cons.prems(3) Suc by auto
    have "scan_lines ls b (acc @ [l]) False
        = ((acc @ [l]) @ take (Suc k') ls @ [b] @ drop (Suc k') ls, True)"
      using Cons.prems(1,2) Suc r by (intro Cons.IH) simp_all
    with l Suc show ?thesis by simp
  qed
qed

text \<open>
  Claim C5, as amended: the marker line is the first line that equals \<open>## [Unreleased]\<close>
  once the white space at its two ends is stripped. The text written is the lines of the
  document joined by newlines, with the release block placed right after that line, or
  after the last line where no line is a marker; every line of the document, the marker
  among them, is kept in its place.
\<close>

theorem insert_release_after_marker:
  "(\<forall>k. k < length (splitlines content)
        \<and> strip (splitlines content ! k) = ''## [Unreleased]''
        \<and> (\<forall>j<k. strip (splitlines content ! j) \<noteq> ''## [Unreleased]'')
      \<longrightarrow> insert_release content block
          = join_nl (take (Suc k) (splitlines content) @ [block] @ drop (Suc k) (splitlines content)))
   \<and> ((\<forall>l \<in> set (splitlines content). strip l \<noteq> ''## [Unreleased]'')
      \<longrightarrow> insert_release content block = join_nl (splitlines content @ [block]))
   \<and> (\<exists>pre post. splitlines content = pre @ post
        \<and> insert_release content block = join_nl (pre @ [block] @ post))"
proof (intro conjI allI impI)
  fix k
  assume "k < length (splitlines content)
        \<and> strip (splitlines content ! k) = ''## [Unreleased]''
        \<and> (\<forall>j<k. strip (splitlines content ! j) \<noteq> ''## [Unreleased]'')"
  then show "insert_release content block
          = join_nl (take (Suc k) (splitlines content) @ [block] @ drop (Suc k) (splitlines content))"
    using scan_lines_first_marker [of k "splitlines content" block "[]"]
    by (simp add: insert_release_def)
next
  assume "\<forall>l \<in> set (splitlines content). strip l \<noteq> ''## [Unreleased]''"
  then show "insert_release content block = join_nl (splitlines content @ [block])"
    by (simp add: insert_release_def scan_lines_no_marker)
next
  let ?ls = "splitlines content"
  show "\<exists>pre post. ?ls = pre @ post \<and> insert_release content block = join_nl (pre @ [block] @ post)"
  proof (cases "\<forall>l \<in> set ?ls. strip l \<noteq> ''## [Unreleased]''")
    case True
    then have "insert_release content block = join_nl (?ls @ [block] @ [])"
      by (simp add: insert_release_def scan_lines_no_marker)
    then show ?thesis by (intro exI [of _ ?ls] exI [of _ "[]"]) simp
  next
    case False
    define P where "P = (\<lambda>l. strip l \<noteq> ''## [Unreleased]'')"
    define k where "k = length (takeWhile P ?ls)"
    from False have "takeWhile P ?ls \<noteq> ?ls"
      unfolding P_def by simp
    then have "dropWhile P ?ls \<noteq> []"
      by (metis append_Nil2 takeWhile_dropWhile_id)
    moreover have "length (takeWhile P ?ls) + length (dropWhile P ?ls) = length ?ls"
      by (metis length_append takeWhile_dropWhile_id)
    ultimately have kl: "k < length ?ls"
      unfolding k_def by (cases "dropWhile P ?ls") simp_all
    have "\<not> P (?ls ! k)"
      using kl unfolding k_def by (rule nth_length_takeWhile)
    then have km: "strip (?ls ! k) = ''## [Unreleased]''"
      unfolding P_def by simp
    have kf: "\<forall>j<k. strip (?ls ! j) \<noteq> ''## [Unreleased]''"
    proof (intro allI impI)
      fix j assume j: "j < k"
      then have "takeWhile P ?ls ! j \<in> set (takeWhile P ?ls)"
        unfolding k_def by (rule nth_mem)
      then have "P (takeWhile P ?ls ! j)"
        by (rule set_takeWhileD [THEN conjunct2])
      moreover have "takeWhile P ?ls ! j = ?ls ! j"
        using j unfolding k_def by (rule takeWhile_nth)
      ultimately show "strip (?ls ! j) \<noteq> ''## [Unreleased]''"
        unfolding P_def by simp
    qed
    have "insert_release content block = join_nl (take (Suc k) ?ls @ [block] @ drop (Suc k) ?ls)"
      using scan_lines_first_marker [OF kl km kf, of block "[]"]
      by (simp add: insert_release_def)
    then show ?thesis
      by (intro exI [of _ "take (Suc k) ?ls"] exI [of _ "drop (Suc k) ?ls"]) simp
  qed
qed

theorem insert_release_after_marker_witness:
  "insert_release (''# Title'' @ [NL] @ ''  ## [Unreleased]'' @ [NL] @ ''## [1.0.0]'') ''BLOCK''
     = ''# Title'' @ [NL] @ ''  ## [Unreleased]'' @ [NL] @ ''BLOCK'' @ [NL] @ ''## [1.0.0]''
   \<and> insert_release (''# Title'' @ [NL] @ ''## [1.0.0]'') ''BLOCK''
     = ''# Title'' @ [NL] @ ''## [1.0.0]'' @ [NL] @ ''BLOCK''"
proof -
  let ?c = "''# Title'' @ [NL] @ ''  ## [Unreleased]'' @ [NL] @ ''## [1.0.0]''"
  let ?d = "''# Title'' @ [NL] @ ''## [1.0.0]''"
  have sc: "splitlines ?c = [''# Title'', ''  ## [Unreleased]'', ''## [1.0.0]'']"
    by code_simp
  have sd: "splitlines ?d = [''# Title'', ''## [1.0.0]'']"
    by code_simp
  have s0: "strip ''# Title'' \<noteq> ''## [Unreleased]''" by code_simp
  have s1: "strip ''  ## [Unreleased]'' = ''## [Unreleased]''" by code_simp
  have s2: "strip ''## [1.0.0]'' \<noteq> ''## [Unreleased]''" by code_simp
  have h1: "1 < length (splitlines ?c) \<and> strip (splitlines ?c ! 1) = ''## [Unreleased]''
      \<and> (\<forall>j<1. strip (splitlines ?c ! j) \<noteq> ''## [Unreleased]'')"
    unfolding sc using s0 s1 by simp
  have h2: "\<forall>l \<in> set (splitlines ?d). strip l \<noteq> ''## [Unreleased]''"
    unfolding sd using s0 s2 by simp
  from insert_release_after_marker [of ?c "''BLOCK''"] h1
  have a: "insert_release ?c ''BLOCK''
      = join_nl (take (Suc 1) (splitlines ?c) @ [''BLOCK''] @ drop (Suc 1) (splitlines ?c))"
    by blast
  from insert_release_after_marker [of ?d "''BLOCK''"] h2
  have b: "insert_release ?d ''BLOCK'' = join_nl (splitlines ?d @ [''BLOCK''])"
    by blast
  show ?thesis
    unfolding a b sc sd by simp
qed

text \<open>
  The claim as stated fails: the only heading line below has a leading blank, so no line
  is exactly the marker and the block should go to the end; it is placed after the first
  line instead.
\<close>

theorem insert_release_exact_marker_counterexample:
  "''## [Unreleased]'' \<notin> set (splitlines ('' ## [Unreleased]'' @ [NL] @ ''text''))
   \<and> insert_release ('' ## [Unreleased]'' @ [NL] @ ''text'') ''BLOCK''
       \<noteq> join_nl (splitlines ('' ## [Unreleased]'' @ [NL] @ ''text'') @ [''BLOCK''])
   \<and> insert_release ('' ## [Unreleased]'' @ [NL] @ ''text'') ''BLOCK''
       = '' ## [Unreleased]'' @ [NL] @ ''BLOCK'' @ [NL] @ ''text''"
  by code_simp

section \<open>Release\<close>

lemma create_git_tag_files [simp]:
  "release_files (create_git_tag ver m w) = release_files w"
  "changelog_file (create_git_tag ver m w) = changelog_file w"
  "unreleased_file (create_git_tag ver m w) = unreleased_file w"
  by (simp_all add: create_git_tag_def Let_def)

lemma init_unreleased_json_ok:
  assumes "project_name (config_dict w) = Inr p"
  shows "init_unreleased_json w = (Inr (), w\<lparr>reads := reads w + 3,
    unreleased_file := Stored \<lparr>project = p, created = isoformat (clock w (reads w)),
      last_modified = isoformat (clock w (reads w + 2)), changes = empty_changes,
      total_changes = 0\<rparr>\<rparr>)"
  using assms by (simp add: init_unreleased_json_def save_unreleased_json_def now_def)

lemma init_unreleased_json_error:
  assumes "project_name (config_dict w) = Inl e"
  shows "init_unreleased_json w = (Inl e, w)"
  using assms by (simp add: init_unreleased_json_def)

text \<open>The world after the release file and the changelog are written.\<close>

lemma release_written:
  assumes "unreleased_file w = Stored d" and "total_changes d \<noteq> 0"
  shows "release_files (snd (release ver notes tag_git w))
      = AList.update (release_file_name (if prefix ''v'' ver then drop 1 ver else ver))
          \<lparr>version = ver, date = strftime_date (clock w (reads w)),
            release_timestamp = isoformat (clock w (reads w + 1)), release_notes = notes,
            release_changes = changes d, release_total_changes = total_changes d\<rparr>
          (release_files w)"
    and "changelog_file (snd (release ver notes tag_git w))
      = Some (insert_release (case changelog_file w of Some c \<Rightarrow> c | None \<Rightarrow> default_changelog)
          (release_block ver (strftime_date (clock w (reads w + 2))) notes (changes d)))"
proof -
  let ?w5 = "update_changelog_md ver notes (changes d)
      (w\<lparr>reads := reads w + 2, release_files :=
        AList.update (release_file_name (if prefix ''v'' ver then drop 1 ver else ver))
          \<lparr>version = ver, date = strftime_date (clock w (reads w)),
            release_timestamp = isoformat (clock w (reads w + 1)), release_notes = notes,
            release_changes = changes d, release_total_changes = total_changes d\<rparr>
          (release_files w)\<rparr>)"
  have r: "release ver notes tag_git w = (case init_unreleased_json ?w5 of
        (Inl e, w6) \<Rightarrow> (Inl e, w6)
      | (Inr u, w6) \<Rightarrow> (Inr True, if tag_git then create_git_tag ver notes w6 else w6))"
    using assms by (simp add: release_def load_Stored now_def Let_def)
  have c: "config_dict ?w5 = config_dict w"
    by (simp add: update_changelog_md_def now_def Let_def)
  have f: "release_files ?w5
      = AList.update (release_file_name (if prefix ''v'' ver then drop 1 ver else ver))
          \<lparr>version = ver, date = strftime_date (clock w (reads w)),
            release_timestamp = isoformat (clock w (reads w + 1)), release_notes = notes,
            release_changes = changes d, release_total_changes = total_changes d\<rparr>
          (release_files w)"
    by (simp add: update_changelog_md_def now_def Let_def)
  have g: "changelog_file ?w5
      = Some (insert_release (case changelog_file w of Some c \<Rightarrow> c | None \<Rightarrow> default_changelog)
          (release_block ver (strftime_date (clock w (reads w + 2))) notes (changes d)))"
    by (simp add: update_changelog_md_def now_def Let_def)
  show "release_files (snd (release ver notes tag_git w))
      = AList.update (release_file_name (if prefix ''v'' ver then drop 1 ver else ver))
          \<lparr>version = ver, date = strftime_date (clock w (reads w)),
            release_timestamp = isoformat (clock w (reads w + 1)), release_notes = notes,
            release_changes = changes d, release_total_changes = total_changes d\<rparr>
          (release_files w)"
  proof (cases "project_name (config_dict w)")
    case (Inl e)
    with c have "init_unreleased_json ?w5 = (Inl e, ?w5)"
      by (simp add: init_unreleased_json_error)
    with r f show ?thesis by simp
  next
    case (Inr p)
    with c have "project_name (config_dict ?w5) = Inr p" by simp
    from init_unreleased_json_ok [OF this] r f show ?thesis by simp
  qed
  show "changelog_file (snd (release ver notes tag_git w))
      = Some (insert_release (case changelog_file w of Some c \<Rightarrow> c | None \<Rightarrow> default_changelog)
          (release_block ver (strftime_date (clock w (reads w + 2))) notes (changes d)))"
  proof (cases "project_name (config_dict w)")
    case (Inl e)
    with c have "init_unreleased_json ?w5 = (Inl e, ?w5)"
      by (simp add: init_unreleased_json_error)
    with r g show ?thesis by simp
  next
    case (Inr p)
    with c have "project_name (config_dict ?w5) = Inr p" by simp
    from init_unreleased_json_ok [OF this] r g show ?thesis by simp
  qed
qed



section \<open>What a release writes\<close>






text \<open>The changelog after the release of \<open>v2.0.0\<close> in the example.\<close>

lemma release_example_changelog:
  "changelog_file (snd (release ''v2.0.0'' [] False (example_world [] example_changes)))
     = Some (''# Changelog'' @ [NL, NL] @ ''## [Unreleased]'' @ [NL, NL]
         @ ''## [v2.0.0] - 2024-05-06'' @ [NL, NL] @ ''### Added'' @ [NL] @ ''- A'' @ [NL]
         @ ''- B'' @ [NL, NL] @ ''### Fixed'' @ [NL] @ ''- C'' @ [NL])"
proof -
  let ?w = "example_world [] example_changes"
  let ?d = "example_doc example_changes"
  have a: "unreleased_file ?w = Stored ?d"
    by (simp add: example_world_def)
  have b: "total_changes ?d \<noteq> 0"
    by (simp add: example_doc_def example_changes_def count_changes_def)
  have t: "strftime_date (clock ?w (reads ?w + 2)) = ''2024-05-06''"
    by (simp add: example_world_def clock_format)
  have c: "(case changelog_file ?w of Some c \<Rightarrow> c | None \<Rightarrow> default_changelog)
      = ''# Changelog'' @ [NL, NL] @ ''## [Unreleased]'' @ [NL]"
    by (simp add: example_world_def)
  have e: "changes ?d = example_changes"
    by (simp add: example_doc_def)
  have i: "insert_release (''# Changelog'' @ [NL, NL] @ ''## [Unreleased]'' @ [NL])
        (release_block ''v2.0.0'' ''2024-05-06'' [] example_changes)
      = ''# Changelog'' @ [NL, NL] @ ''## [Unreleased]'' @ [NL, NL]
         @ ''## [v2.0.0] - 2024-05-06'' @ [NL, NL] @ ''### Added'' @ [NL] @ ''- A'' @ [NL]
         @ ''- B'' @ [NL, NL] @ ''### Fixed'' @ [NL] @ ''- C'' @ [NL]"
    by code_simp
  show ?thesis
    using release_written(2) [OF a b, of "''v2.0.0''" "[]" False] unfolding t c e i .
qed

section \<open>Selecting entries by index\<close>

lemma global_scan_at:
  assumes "ctype \<notin> set pre"
  shows "global_scan (pre @ ctype # post) chs ctype i ix m g
    = (if int i = ix - 1 then m else False,
       g + int (sum_list (map (\<lambda>ct. length (get_list chs ct)) pre)))"
  using assms by (induction pre arbitrary: g) auto

lemma distinct_change_type_keys: "distinct change_type_keys"
  by (simp add: change_type_keys_def change_types_def)

text \<open>
  What the index filter of \<open>remove\<close> accepts: the entry at position \<open>i\<close> of the
  category number \<open>c\<close> passes for the index \<open>ix\<close> exactly when both \<open>i\<close> and the number
  of entries in the categories before \<open>c\<close> are \<open>ix - 1\<close>. The entry at global position
  \<open>ix\<close> is the one where the two add up to \<open>ix - 1\<close>.
\<close>

lemma entry_matches_index:
  assumes "c < length change_type_keys"
  shows "entry_matches chs None (Some ix) (change_type_keys ! c) i e
    \<longleftrightarrow> int i = ix - 1
      \<and> int (sum_list (map (\<lambda>ct. length (get_list chs ct)) (take c change_type_keys))) = ix - 1"
proof -
  have k: "change_type_keys = take c change_type_keys @ change_type_keys ! c # drop (Suc c) change_type_keys"
    using assms by (simp add: id_take_nth_drop)
  have n: "change_type_keys ! c \<notin> set (take c change_type_keys)"
    using distinct_change_type_keys assms
    by (metis distinct_take id_take_nth_drop not_distinct_conv_prefix)
  have "global_scan change_type_keys chs (change_type_keys ! c) i ix True 1
      = (if int i = ix - 1 then True else False,
         1 + int (sum_list (map (\<lambda>ct. length (get_list chs ct)) (take c change_type_keys))))"
    using global_scan_at [OF n, of "drop (Suc c) change_type_keys" chs i ix True 1] k by simp
  then show ?thesis
    by (auto simp: entry_matches_def)
qed

text \<open>
  Claim C1 says that an index alone selects the entry at that position of the global order.
  In the example of the specification, \<open>added\<close> holding A and B and \<open>fixed\<close> holding C,
  the index 3 selects nothing and \<open>remove\<close> returns False with the store untouched; the
  index 1 selects A.
\<close>

theorem remove_index_three_selects_nothing:
  "changes_to_remove example_changes None None (Some 3) = []
   \<and> remove None None (Some 3) (example_world [''y''] example_changes)
       = (Inr False, example_world [''y''] example_changes)
   \<and> changes_to_remove example_changes None None (Some 1)
       = [\<lparr>item_type = ''added'', item_index = 0, item_change = example_entry ''A''\<rparr>]"
proof -
  have a: "changes_to_remove example_changes None None (Some 3) = []"
    by code_simp
  have b: "changes_to_remove example_changes None None (Some 1)
       = [\<lparr>item_type = ''added'', item_index = 0, item_change = example_entry ''A''\<rparr>]"
    by code_simp
  have c: "unreleased_file (example_world [''y''] example_changes) = Stored (example_doc example_changes)"
    by (simp add: example_world_def)
  have d: "changes (example_doc example_changes) = example_changes"
    by (simp add: example_doc_def)
  have "remove None None (Some 3) (example_world [''y''] example_changes)
       = (Inr False, example_world [''y''] example_changes)"
    by (simp add: remove_def load_Stored [OF c] d a)
  with a b show ?thesis by simp
qed

section \<open>Removal and the counter\<close>

lemma save_unreleased_json_file:
  "unreleased_file (save_unreleased_json d w)
     = Stored (d\<lparr>last_modified := isoformat (clock w (reads w))\<rparr>)"
  by (simp add: save_unreleased_json_def now_def)

lemma input_line_keeps:
  assumes "input_line w = (r, w')"
  shows "unreleased_file w' = unreleased_file w \<and> clock w' = clock w \<and> reads w' = reads w"
  using assms by (auto simp: input_line_def split: list.splits)

lemma choose_indices_keeps:
  assumes "choose_indices n w = (r, w')"
  shows "unreleased_file w' = unreleased_file w \<and> clock w' = clock w \<and> reads w' = reads w"
proof (cases "n = 1")
  case True
  obtain r1 w1 where i: "input_line w = (r1, w1)" by (cases "input_line w")
  from assms True i have "w' = w1"
    by (cases r1) (auto simp: choose_indices_def split: if_splits)
  with input_line_keeps [OF i] show ?thesis by simp
next
  case False
  obtain r1 w1 where i: "input_line w = (r1, w1)" by (cases "input_line w")
  obtain r2 w2 where j: "input_line w1 = (r2, w2)" by (cases "input_line w1")
  from assms False i j have "w' = w1 \<or> w' = w2"
    by (cases r1; cases r2) (auto simp: choose_indices_def split: if_splits sum.splits)
  with input_line_keeps [OF i] input_line_keeps [OF j] show ?thesis by auto
qed

text \<open>A removal that returns True has saved the lists the deleting loop produced.\<close>

lemma remove_success:
  assumes "unreleased_file w = Stored d" and "remove ct p ix w = (Inr True, w')"
  shows "\<exists>idxs chs. idxs \<noteq> []
    \<and> apply_removals (sorted_reverse idxs) (changes_to_remove (changes d) ct p ix) (changes d) = Inr chs
    \<and> unreleased_file w' = Stored (d\<lparr>changes := chs, total_changes := count_changes chs,
          last_modified := isoformat (clock w (reads w))\<rparr>)"
proof -
  let ?cands = "changes_to_remove (changes d) ct p ix"
  obtain r w2 where c: "choose_indices (length ?cands) w = (r, w2)"
    by (cases "choose_indices (length ?cands) w")
  note k = choose_indices_keeps [OF c]
  from assms c obtain idxs where r: "r = Inr (Some idxs)" and ne: "?cands \<noteq> []"
    by (auto simp: remove_def load_Stored Let_def split: if_splits sum.splits option.splits)
  from assms c r ne obtain chs where
    a: "apply_removals (sorted_reverse idxs) ?cands (changes d) = Inr chs"
    and w': "w' = save_unreleased_json (d\<lparr>changes := chs, total_changes := count_changes chs\<rparr>) w2"
    by (auto simp: remove_def load_Stored Let_def split: sum.splits)
  have "idxs \<noteq> []"
    using c r ne
    by (auto simp: choose_indices_def split: if_splits sum.splits prod.splits)
  with a w' k show ?thesis
    by (auto simp: save_unreleased_json_file)
qed

text \<open>A removal that does not return True leaves the stored document as it was.\<close>

lemma remove_no_success:
  assumes "unreleased_file w = Stored d" and "remove ct p ix w = (r, w')" and "r \<noteq> Inr True"
  shows "unreleased_file w' = Stored d"
proof -
  let ?cands = "changes_to_remove (changes d) ct p ix"
  obtain r2 w2 where c: "choose_indices (length ?cands) w = (r2, w2)"
    by (cases "choose_indices (length ?cands) w")
  note k = choose_indices_keeps [OF c]
  from assms c have "w' = w \<or> w' = w2"
    by (auto simp: remove_def load_Stored Let_def split: if_splits sum.splits option.splits)
  with k assms(1) show ?thesis by auto
qed

lemma add_stored:
  assumes "unreleased_file w = Stored d"
  shows "unreleased_file (snd (add ct descr auth w)) = Stored d
    \<or> (\<exists>chs t. unreleased_file (snd (add ct descr auth w))
          = Stored (d\<lparr>changes := chs, total_changes := count_changes chs, last_modified := t\<rparr>))"
  using assms
  by (auto simp: add_def load_Stored now_def Let_def save_unreleased_json_file)

lemma add_count_invariant:
  assumes "count_invariant w"
  shows "count_invariant (snd (add ct descr auth w))"
proof -
  from assms obtain d where d: "unreleased_file w = Stored d"
    and i: "total_changes d = count_changes (changes d)"
    by (auto simp: count_invariant_def split: pending_file.splits)
  from add_stored [OF d, of ct descr auth] i show ?thesis
    by (auto simp: count_invariant_def)
qed

lemma remove_count_invariant:
  assumes "count_invariant w"
  shows "count_invariant (snd (remove ct p ix w))"
proof -
  from assms obtain d where d: "unreleased_file w = Stored d"
    and i: "total_changes d = count_changes (changes d)"
    by (auto simp: count_invariant_def split: pending_file.splits)
  obtain r w' where r: "remove ct p ix w = (r, w')" by (cases "remove ct p ix w")
  show ?thesis
  proof (cases "r = Inr True")
    case True
    with r have "remove ct p ix w = (Inr True, w')" by simp
    from remove_success [OF d this] r show ?thesis
      by (auto simp: count_invariant_def)
  next
    case False
    from remove_no_success [OF d r False] i r show ?thesis
      by (simp add: count_invariant_def)
  qed
qed

lemma run_commands_count_invariant:
  "count_invariant w \<Longrightarrow> count_invariant (run_commands cmds w)"
proof (induction cmds arbitrary: w)
  case Nil
  then show ?case by simp
next
  case (Cons c cmds)
  have "count_invariant (run_command c w)"
    using Cons.prems by (cases c) (simp_all add: add_count_invariant remove_count_invariant)
  then show ?case by (simp add: Cons.IH)
qed

section \<open>The count invariant and pruning\<close>

text \<open>
  Claim C6: from a store that holds the initial document, whatever commands \<open>add\<close> and
  \<open>remove\<close> are run, with whatever answers and clock, the stored \<open>total_changes\<close> is the
  sum of the lengths of the category lists after each of them.
\<close>

theorem count_invariant_maintained:
  assumes "unreleased_file w = Stored d" and "changes d = empty_changes"
    and "total_changes d = 0"
  shows "\<forall>n. count_invariant (run_commands (take n cmds) w)"
proof
  fix n
  have "count_invariant w"
    using assms by (simp add: count_invariant_def count_changes_def empty_changes_def)
  then show "count_invariant (run_commands (take n cmds) w)"
    by (rule run_commands_count_invariant)
qed

theorem count_invariant_maintained_witness:
  "unreleased_file (example_world [''y''] empty_changes) = Stored (example_doc empty_changes)
   \<and> changes (example_doc empty_changes) = empty_changes
   \<and> total_changes (example_doc empty_changes) = 0
   \<and> count_invariant (run_commands [Add ''added'' ''A'' None]
         (example_world [''y''] empty_changes))
   \<and> count_invariant (run_commands [Add ''added'' ''A'' None, Add ''fixed'' ''C'' (Some ''Ana''),
           Remove None None (Some 1)]
         (example_world [''y''] empty_changes))"
proof -
  let ?w = "example_world [''y''] empty_changes"
  let ?cmds = "[Add ''added'' ''A'' None, Add ''fixed'' ''C'' (Some ''Ana''), Remove None None (Some 1)]"
  have a: "unreleased_file ?w = Stored (example_doc empty_changes)"
    by (simp add: example_world_def)
  have b: "changes (example_doc empty_changes) = empty_changes"
    by (simp add: example_doc_def)
  have c: "total_changes (example_doc empty_changes) = 0"
    by (simp add: example_doc_def count_changes_def empty_changes_def)
  note th = count_invariant_maintained [OF a b c, of ?cmds]
  from th [THEN spec, of 1] have 1: "count_invariant (run_commands [Add ''added'' ''A'' None] ?w)"
    by simp
  from th [THEN spec, of 3] have 3: "count_invariant (run_commands ?cmds ?w)"
    by simp
  from a b c 1 3 show ?thesis by simp
qed

text \<open>One step of the deleting loop never leaves an emptied list under its key: a list
  found after the loop is the list found before it, or is shorter and not empty.\<close>

lemma apply_removals_pruned:
  assumes "apply_removals idxs cands chs = Inr chs'" and "map_of chs' k = Some l"
  shows "map_of chs k = Some l \<or> (l \<noteq> [] \<and> (\<exists>l0. map_of chs k = Some l0 \<and> length l < length l0))"
  using assms
proof (induction idxs arbitrary: chs)
  case Nil
  then show ?case by simp
next
  case (Cons idx idxs)
  let ?t = "item_type (cands ! idx)"
  from Cons.prems(1) obtain l0 where l0: "map_of chs ?t = Some l0"
    by (auto simp: Let_def split: if_splits option.splits)
  from Cons.prems(1) l0 obtain l1 where l1: "list_pop l0 (item_index (cands ! idx)) = Inr l1"
    by (auto simp: Let_def split: if_splits sum.splits)
  define chs2 where "chs2 = (if l1 = [] then AList.delete ?t (AList.update ?t l1 chs)
    else AList.update ?t l1 chs)"
  from Cons.prems(1) l0 l1 have r: "apply_removals idxs cands chs2 = Inr chs'"
    by (auto simp: Let_def chs2_def split: if_splits)
  have len: "length l1 < length l0"
    using l1 by (auto simp: list_pop_def split: if_splits)
  have other: "\<And>k'. k' \<noteq> ?t \<Longrightarrow> map_of chs2 k' = map_of chs k'"
    by (simp add: chs2_def delete_conv' update_conv')
  have this_key: "map_of chs2 ?t = (if l1 = [] then None else Some l1)"
    by (simp add: chs2_def delete_conv' update_conv')
  from Cons.IH [OF r Cons.prems(2)]
  have ih: "map_of chs2 k = Some l
    \<or> (l \<noteq> [] \<and> (\<exists>l2. map_of chs2 k = Some l2 \<and> length l < length l2))" .
  show ?case
  proof (cases "k = ?t")
    case False
    with ih other show ?thesis by simp
  next
    case True
    with ih this_key l0 len show ?thesis
      by (auto split: if_splits)
  qed
qed

text \<open>
  Claim C9: a \<open>remove\<close> that returns True has written the document back with
  \<open>total_changes\<close> recomputed from its lists and \<open>last_modified\<close> read from the clock. In
  it no category whose list was not already empty is left with an empty list: it is dropped
  from the mapping. A category that held one entry keeps it or has lost its key.
\<close>

theorem remove_prunes_empty_categories:
  assumes "unreleased_file w = Stored d" and "remove ct p ix w = (Inr True, w')"
  shows "\<exists>d'. unreleased_file w' = Stored d'
    \<and> total_changes d' = count_changes (changes d')
    \<and> last_modified d' = isoformat (clock w (reads w))
    \<and> (\<forall>k. map_of (changes d) k \<noteq> Some [] \<longrightarrow> map_of (changes d') k \<noteq> Some [])
    \<and> (\<forall>k e. map_of (changes d) k = Some [e] \<longrightarrow>
          map_of (changes d') k = Some [e] \<or> map_of (changes d') k = None)"
proof -
  from remove_success [OF assms] obtain idxs chs where
    a: "apply_removals (sorted_reverse idxs) (changes_to_remove (changes d) ct p ix) (changes d) = Inr chs"
    and s: "unreleased_file w' = Stored (d\<lparr>changes := chs, total_changes := count_changes chs,
          last_modified := isoformat (clock w (reads w))\<rparr>)"
    by blast
  have 1: "\<forall>k. map_of (changes d) k \<noteq> Some [] \<longrightarrow> map_of chs k \<noteq> Some []"
    using apply_removals_pruned [OF a] by blast
  have 2: "\<forall>k e. map_of (changes d) k = Some [e] \<longrightarrow> map_of chs k = Some [e] \<or> map_of chs k = None"
  proof (intro allI impI)
    fix k e
    assume o: "map_of (changes d) k = Some [e]"
    show "map_of chs k = Some [e] \<or> map_of chs k = None"
    proof (cases "map_of chs k")
      case None
      then show ?thesis by simp
    next
      case (Some l)
      from apply_removals_pruned [OF a Some] o show ?thesis
        using Some by (cases l) auto
    qed
  qed
  from s 1 2 show ?thesis by simp
qed

section \<open>Removal on the example store\<close>

lemma remove_eval:
  assumes "unreleased_file w = Stored d"
    and "changes_to_remove (changes d) ct p ix = cands" and "cands \<noteq> []"
    and "choose_indices (length cands) w = (Inr (Some idxs), w2)"
    and "apply_removals (sorted_reverse idxs) cands (changes d) = Inr chs"
  shows "remove ct p ix w = (Inr True,
    save_unreleased_json (d\<lparr>changes := chs, total_changes := count_changes chs\<rparr>) w2)"
  using assms by (simp add: remove_def load_Stored Let_def)

lemma example_world_fields:
  "unreleased_file (example_world inp chs) = Stored (example_doc chs)"
  "stdin (example_world inp chs) = inp"
  "clock (example_world inp chs) = example_clock"
  "reads (example_world inp chs) = 0"
  "changes (example_doc chs) = chs"
  by (simp_all add: example_world_def example_doc_def)

text \<open>The example of claim C9: confirming the removal of the only \<open>fixed\<close> entry drops
  the key \<open>fixed\<close>; the categories that were empty before stay.\<close>

theorem remove_prunes_empty_categories_witness:
  "fst (remove (Some ''fixed'') None None (example_world [''y''] example_changes)) = Inr True
   \<and> (\<exists>d'. unreleased_file (snd (remove (Some ''fixed'') None None
                (example_world [''y''] example_changes))) = Stored d'
        \<and> total_changes d' = 2
        \<and> map_of (changes d') ''fixed'' = None
        \<and> map_of (changes d') ''changed'' = Some []
        \<and> last_modified d' = ''2024-05-06T07:08:09.006100'')"
proof -
  let ?w = "example_world [''y''] example_changes"
  let ?cands = "[\<lparr>item_type = ''fixed'', item_index = 0, item_change = example_entry ''C''\<rparr>]"
  let ?chs = "[(''added'', [example_entry ''A'', example_entry ''B'']), (''changed'', []),
     (''deprecated'', []), (''removed'', []), (''security'', [])]"
  have c: "changes_to_remove (changes (example_doc example_changes)) (Some ''fixed'') None None = ?cands"
    unfolding example_world_fields by code_simp
  have y: "lower ''y'' = ''y''"
    by code_simp
  have i: "choose_indices (length ?cands) ?w = (Inr (Some [0]), ?w\<lparr>stdin := []\<rparr>)"
    by (simp add: choose_indices_def input_line_def example_world_fields y)
  have a: "apply_removals (sorted_reverse [0]) ?cands (changes (example_doc example_changes)) = Inr ?chs"
    unfolding example_world_fields by code_simp
  have n: "count_changes ?chs = 2"
    by (simp add: count_changes_def)
  have e: "remove (Some ''fixed'') None None ?w = (Inr True,
      save_unreleased_json (example_doc example_changes\<lparr>changes := ?chs,
        total_changes := count_changes ?chs\<rparr>) (?w\<lparr>stdin := []\<rparr>))"
    by (rule remove_eval [OF example_world_fields(1) c _ i a]) simp
  have s: "remove (Some ''fixed'') None None ?w
      = (Inr True, snd (remove (Some ''fixed'') None None ?w))"
    using e by simp
  from remove_prunes_empty_categories [OF example_world_fields(1) s]
  obtain d' where d': "unreleased_file (snd (remove (Some ''fixed'') None None ?w)) = Stored d'"
    and t: "total_changes d' = count_changes (changes d')"
    and m: "last_modified d' = isoformat (clock ?w (reads ?w))"
    and k: "\<forall>k e. map_of (changes (example_doc example_changes)) k = Some [e] \<longrightarrow>
          map_of (changes d') k = Some [e] \<or> map_of (changes d') k = None"
    by blast
  have ch: "changes d' = ?chs"
    using d' e by (auto simp: save_unreleased_json_file)
  have iso: "isoformat (clock ?w (reads ?w)) = ''2024-05-06T07:08:09.006100''"
    by (simp add: example_world_fields clock_format)
  from d' t m ch n iso e show ?thesis
    by simp
qed

section \<open>A number picked twice\<close>

text \<open>
  Claim C8 says that a removal of several candidates deletes exactly the selected entries.
  With the three entries of the example as candidates, the answer 2 (pick numbers) and the
  numbers \<open>1,1\<close> select the first candidate, A, twice. The loop then pops position 0 of
  \<open>added\<close> twice: A and B are both deleted, the key \<open>added\<close> is dropped, and \<open>remove\<close>
  returns True.
\<close>

theorem remove_repeated_number_deletes_unselected:
  "parse_selection 3 (split_on (CHR '','') (strip ''1,1'')) = Inr [0, 0]
   \<and> fst (remove None None None (example_world [''2'', ''1,1''] example_changes)) = Inr True
   \<and> unreleased_file (snd (remove None None None (example_world [''2'', ''1,1''] example_changes)))
     = Stored (example_doc example_changes\<lparr>
         changes := [(''changed'', []), (''deprecated'', []), (''removed'', []),
           (''fixed'', [example_entry ''C'']), (''security'', [])],
         total_changes := 1, last_modified := ''2024-05-06T07:08:09.006100''\<rparr>)"
proof -
  let ?w = "example_world [''2'', ''1,1''] example_changes"
  let ?cands = "[\<lparr>item_type = ''added'', item_index = 0, item_change = example_entry ''A''\<rparr>,
     \<lparr>item_type = ''added'', item_index = 1, item_change = example_entry ''B''\<rparr>,
     \<lparr>item_type = ''fixed'', item_index = 0, item_change = example_entry ''C''\<rparr>]"
  let ?chs = "[(''changed'', []), (''deprecated'', []), (''removed'', []),
           (''fixed'', [example_entry ''C'']), (''security'', [])]"
  have c: "changes_to_remove (changes (example_doc example_changes)) None None None = ?cands"
    unfolding example_world_fields by code_simp
  have s2: "strip ''2'' = ''2''"
    by code_simp
  have p: "parse_selection 3 (split_on (CHR '','') (strip ''1,1'')) = Inr [0, 0]"
    by code_simp
  have i: "choose_indices (length ?cands) ?w = (Inr (Some [0, 0]), ?w\<lparr>stdin := []\<rparr>)"
    by (simp add: choose_indices_def input_line_def example_world_fields s2
        p [unfolded numeral_3_eq_3])
  have a: "apply_removals (sorted_reverse [0, 0]) ?cands (changes (example_doc example_changes)) = Inr ?chs"
    unfolding example_world_fields by code_simp
  have n: "count_changes ?chs = 1"
    by (simp add: count_changes_def)
  have e: "remove None None None ?w = (Inr True,
      save_unreleased_json (example_doc example_changes\<lparr>changes := ?chs,
        total_changes := count_changes ?chs\<rparr>) (?w\<lparr>stdin := []\<rparr>))"
    by (rule remove_eval [OF example_world_fields(1) c _ i a]) simp
  have iso: "isoformat (example_clock 0) = ''2024-05-06T07:08:09.006100''"
    by (simp add: clock_format)
  show ?thesis
    unfolding e using p by (simp add: save_unreleased_json_file example_world_fields n iso)
qed

section \<open>Two additions within a millisecond\<close>

text \<open>What \<open>add\<close> stores for a supported category.\<close>

lemma add_appends:
  assumes "unreleased_file w = Stored d" and "has_key change_types ct"
  shows "fst (add ct descr auth w) = Inr True"
    and "unreleased_file (snd (add ct descr auth w)) = Stored (d\<lparr>
      changes := AList.update ct (get_list (changes d) ct @
        [\<lparr>entry_id = generate_id (clock w (reads w)), description = descr,
          timestamp = isoformat (clock w (reads w + 1)), author = auth, status = ''pending''\<rparr>])
        (changes d),
      total_changes := count_changes (AList.update ct (get_list (changes d) ct @
        [\<lparr>entry_id = generate_id (clock w (reads w)), description = descr,
          timestamp = isoformat (clock w (reads w + 1)), author = auth, status = ''pending''\<rparr>])
        (changes d)),
      last_modified := isoformat (clock w (reads w + 2))\<rparr>)"
    and "clock (snd (add ct descr auth w)) = clock w"
    and "reads (snd (add ct descr auth w)) = reads w + 3"
  using assms
  by (auto simp: add_def load_Stored now_def Let_def save_unreleased_json_def get_list_def
      split: option.splits)

text \<open>
  Claim C2 says that two additions at distinct instants of one second get distinct ids.
  \<open>_generate_id\<close> keeps the clock reading to the millisecond only. In the example the
  clock advances by ten microseconds a reading; two additions in a row read it at 6100 and
  at 6130 microseconds of the same second, and both entries are stored under the same id.
\<close>

theorem add_twice_same_id:
  "example_clock 0 \<noteq> example_clock 3
   \<and> same_second (example_clock 0) (example_clock 3)
   \<and> (\<exists>d. unreleased_file (run_commands [Add ''added'' ''A'' None, Add ''added'' ''B'' None]
          (example_world [] empty_changes)) = Stored d
        \<and> map description (get_list (changes d) ''added'') = [''A'', ''B'']
        \<and> map entry_id (get_list (changes d) ''added'')
            = [''chg_20240506070809006'', ''chg_20240506070809006''])"
proof -
  let ?w = "example_world [] empty_changes"
  let ?w1 = "snd (add ''added'' ''A'' None ?w)"
  have k: "has_key change_types ''added''"
    by (simp add: has_key_def change_types_def)
  note a1 = add_appends [OF example_world_fields(1) k, of "''A''" None "[]" empty_changes]
  obtain d1 where s1: "unreleased_file ?w1 = Stored d1"
    and c1: "changes d1 = AList.update ''added'' (get_list empty_changes ''added'' @
        [\<lparr>entry_id = generate_id (example_clock 0), description = ''A'',
          timestamp = isoformat (example_clock (0 + 1)), author = None, status = ''pending''\<rparr>])
        empty_changes"
    using a1(2) by (simp add: example_world_fields)
  note a2 = add_appends [OF s1 k, of "''B''" None]
  have r1: "clock ?w1 (reads ?w1) = example_clock 3"
    using a1(3,4) by (simp add: example_world_fields)
  obtain d2 where s2: "unreleased_file (snd (add ''added'' ''B'' None ?w1)) = Stored d2"
    and c2: "changes d2 = AList.update ''added'' (get_list (changes d1) ''added'' @
        [\<lparr>entry_id = generate_id (example_clock 3), description = ''B'',
          timestamp = isoformat (clock ?w1 (reads ?w1 + 1)), author = None, status = ''pending''\<rparr>])
        (changes d1)"
    using a2(2) by (simp add: r1)
  have g0: "generate_id (example_clock 0) = ''chg_20240506070809006''"
    by (simp add: generate_id_eq example_clock_def pad_numeral pad_one digit_char_def)
  have g3: "generate_id (example_clock 3) = ''chg_20240506070809006''"
    by (simp add: generate_id_eq example_clock_def pad_numeral pad_one digit_char_def)
  have l1: "get_list (changes d1) ''added''
      = [\<lparr>entry_id = generate_id (example_clock 0), description = ''A'',
          timestamp = isoformat (example_clock (0 + 1)), author = None, status = ''pending''\<rparr>]"
    unfolding c1 by (simp add: get_list_def update_conv' empty_changes_def)
  have l2: "map description (get_list (changes d2) ''added'') = [''A'', ''B'']
      \<and> map entry_id (get_list (changes d2) ''added'')
        = [generate_id (example_clock 0), generate_id (example_clock 3)]"
    unfolding c2 by (simp add: get_list_def update_conv' l1 [unfolded get_list_def])
  have ne: "example_clock 0 \<noteq> example_clock 3"
    by (simp add: example_clock_def)
  have ss: "same_second (example_clock 0) (example_clock 3)"
    by (simp add: example_clock_def same_second_def)
  from s2 l2 g0 g3 ne ss show ?thesis by simp
qed

section \<open>Removal of distinct selections\<close>

lemma sorted_wrt_enumerate: "sorted_wrt (\<lambda>a b. fst a < fst b) (enumerate n xs)"
  by (induction xs arbitrary: n) (auto simp: in_set_enumerate_eq)

text \<open>A candidate points at an entry of its category.\<close>

lemma changes_to_remove_items:
  assumes "x \<in> set (changes_to_remove chs ct p ix)"
  shows "item_index x < length (get_list chs (item_type x))
    \<and> item_change x = get_list chs (item_type x) ! item_index x"
  using assms
  by (auto simp: changes_to_remove_def in_set_enumerate_eq split: if_splits)

lemma sorted_wrt_concat_blocks:
  assumes "distinct ks" and "\<And>k x. x \<in> set (f k) \<Longrightarrow> item_type x = k"
    and "\<And>k. sorted_wrt (\<lambda>a b. item_type a = item_type b \<longrightarrow> item_index a < item_index b) (f k)"
  shows "sorted_wrt (\<lambda>a b. item_type a = item_type b \<longrightarrow> item_index a < item_index b)
    (concat (map f ks))"
  using assms(1)
proof (induction ks)
  case Nil
  then show ?case by simp
next
  case (Cons k ks)
  have "\<forall>x\<in>set (f k). \<forall>y\<in>set (concat (map f ks)). item_type x \<noteq> item_type y"
    using Cons.prems assms(2) by auto
  with Cons assms(3) show ?case
    by (simp add: sorted_wrt_append)
qed

text \<open>The candidates are listed category by category and, within a category, by rising
  position.\<close>

lemma changes_to_remove_sorted:
  "sorted_wrt (\<lambda>a b. item_type a = item_type b \<longrightarrow> item_index a < item_index b)
     (changes_to_remove chs ct p ix)"
  unfolding changes_to_remove_def
proof (rule sorted_wrt_concat_blocks [OF distinct_change_type_keys])
  fix k x
  assume "x \<in> set (if truthy ct \<and> Some k \<noteq> ct then []
       else map (\<lambda>(i, change). \<lparr>item_type = k, item_index = i, item_change = change\<rparr>)
              (filter (\<lambda>(i, change). entry_matches chs p ix k i change)
                 (enumerate 0 (get_list chs k))))"
  then show "item_type x = k"
    by (auto split: if_splits)
next
  fix k
  let ?xs = "filter (\<lambda>(i, change). entry_matches chs p ix k i change) (enumerate 0 (get_list chs k))"
  have "sorted_wrt (\<lambda>a b. fst a < fst b) ?xs"
    by (rule sorted_wrt_filter) (rule sorted_wrt_enumerate)
  then have "sorted_wrt (\<lambda>a b. item_type a = item_type b \<longrightarrow> item_index a < item_index b)
      (map (\<lambda>(i, change). \<lparr>item_type = k, item_index = i, item_change = change\<rparr>) ?xs)"
    unfolding sorted_wrt_map by (rule sorted_wrt_mono_rel [rotated]) auto
  then show "sorted_wrt (\<lambda>a b. item_type a = item_type b \<longrightarrow> item_index a < item_index b)
      (if truthy ct \<and> Some k \<noteq> ct then []
       else map (\<lambda>(i, change). \<lparr>item_type = k, item_index = i, item_change = change\<rparr>) ?xs)"
    by simp
qed

lemma nths_cong_below:
  assumes "\<forall>n<length xs. n \<in> A \<longleftrightarrow> n \<in> B"
  shows "nths xs A = nths xs B"
proof -
  have "filter (\<lambda>p. snd p \<in> A) (zip xs [0..<length xs])
      = filter (\<lambda>p. snd p \<in> B) (zip xs [0..<length xs])"
    using assms by (intro filter_cong refl) (auto simp: in_set_zip)
  then show ?thesis by (simp add: nths_def)
qed

text \<open>Popping position \<open>i\<close> and then leaving out positions below \<open>i\<close> leaves out all of
  them from the list as it was.\<close>

lemma nths_pop:
  assumes "i < length l" and "\<forall>s\<in>S. s < i"
  shows "nths (take i l @ drop (Suc i) l) (- S) = nths l (- insert i S)"
proof -
  have len: "length (take i l) = i"
    using assms(1) by simp
  have a: "nths (take i l) (- S) = nths (take i l) (- insert i S)"
    by (rule nths_cong_below) (simp add: len)
  have b: "{j. j + i \<in> - S} = UNIV"
    using assms(2) by auto
  have c: "{j. j + i \<in> - insert i S} = {j. j \<noteq> 0}"
    using assms(2) by auto
  have lhs: "nths (take i l @ drop (Suc i) l) (- S) = nths (take i l) (- S) @ drop (Suc i) l"
    unfolding nths_append len b by (simp add: nths_all)
  have "nths l (- insert i S) = nths (take i l @ l ! i # drop (Suc i) l) (- insert i S)"
    by (rule arg_cong [where f = "\<lambda>x. nths x (- insert i S)"])
      (simp add: id_take_nth_drop [OF assms(1), symmetric])
  also have "\<dots> = nths (take i l) (- insert i S) @ nths (l ! i # drop (Suc i) l) {j. j \<noteq> 0}"
    unfolding nths_append len c by (rule refl)
  finally have rhs: "nths l (- insert i S)
      = nths (take i l) (- insert i S) @ nths (l ! i # drop (Suc i) l) {j. j \<noteq> 0}" .
  have "nths (l ! i # drop (Suc i) l) {j. j \<noteq> 0} = drop (Suc i) l"
    by (simp add: nths_Cons nths_all)
  with rhs lhs a show ?thesis
    by simp
qed

text \<open>
  The deleting loop on positions of the candidate list that fall, within each category, on
  falling positions of entries that exist: it raises nothing and leaves every category
  list without just the positions named.
\<close>

lemma apply_removals_exact:
  assumes "\<forall>j\<in>set js. j < length cands"
    and "sorted_wrt (\<lambda>a b. item_type (cands ! a) = item_type (cands ! b)
          \<longrightarrow> item_index (cands ! b) < item_index (cands ! a)) js"
    and "\<forall>j\<in>set js. item_index (cands ! j) < length (get_list cur (item_type (cands ! j)))"
  shows "\<exists>res. apply_removals js cands cur = Inr res
    \<and> (\<forall>k. get_list res k = nths (get_list cur k)
          (- set (map item_index (filter (\<lambda>x. item_type x = k) (map ((!) cands) js)))))"
  using assms
proof (induction js arbitrary: cur)
  case Nil
  then show ?case by (simp add: nths_all)
next
  case (Cons j js)
  let ?t = "item_type (cands ! j)"
  let ?i = "item_index (cands ! j)"
  from Cons.prems(3) obtain l where l: "map_of cur ?t = Some l" and il: "?i < length l"
    by (auto simp: get_list_def split: option.splits)
  define l' where "l' = take ?i l @ drop (Suc ?i) l"
  define cur2 where "cur2 = (if l' = [] then AList.delete ?t (AList.update ?t l' cur)
    else AList.update ?t l' cur)"
  have jl: "j < length cands"
    using Cons.prems(1) by simp
  have step: "apply_removals (j # js) cands cur = apply_removals js cands cur2"
    using jl l il by (simp add: Let_def list_pop_def l'_def cur2_def)
  have gt: "get_list cur2 ?t = l'"
    by (simp add: cur2_def get_list_def delete_conv' update_conv')
  have go: "\<And>k. k \<noteq> ?t \<Longrightarrow> get_list cur2 k = get_list cur k"
    by (simp add: cur2_def get_list_def delete_conv' update_conv')
  have ll: "length l' = length l - 1"
    using il by (simp add: l'_def)
  have below: "\<forall>j'\<in>set js. item_type (cands ! j') = ?t \<longrightarrow> item_index (cands ! j') < ?i"
    using Cons.prems(2) by auto
  have p3: "\<forall>j'\<in>set js. item_index (cands ! j') < length (get_list cur2 (item_type (cands ! j')))"
  proof
    fix j' assume j': "j' \<in> set js"
    show "item_index (cands ! j') < length (get_list cur2 (item_type (cands ! j')))"
    proof (cases "item_type (cands ! j') = ?t")
      case True
      with below j' have "item_index (cands ! j') < ?i" by simp
      with il ll gt True show ?thesis by simp
    next
      case False
      with go Cons.prems(3) j' show ?thesis by simp
    qed
  qed
  from Cons.IH [of cur2] Cons.prems(1,2) p3
  obtain res where r: "apply_removals js cands cur2 = Inr res"
    and g: "\<forall>k. get_list res k = nths (get_list cur2 k)
          (- set (map item_index (filter (\<lambda>x. item_type x = k) (map ((!) cands) js))))"
    by auto
  have "get_list res k = nths (get_list cur k)
      (- set (map item_index (filter (\<lambda>x. item_type x = k) (map ((!) cands) (j # js)))))" for k
  proof (cases "k = ?t")
    case False
    with g go show ?thesis by auto
  next
    case True
    let ?S = "set (map item_index (filter (\<lambda>x. item_type x = ?t) (map ((!) cands) js)))"
    have s: "\<forall>s\<in>?S. s < ?i"
      using below by auto
    have "get_list res ?t = nths l' (- ?S)"
      using g gt by simp
    also have "\<dots> = nths l (- insert ?i ?S)"
      unfolding l'_def by (rule nths_pop [OF il s])
    finally show ?thesis
      using True l by (simp add: get_list_def)
  qed
  with step r show ?case by simp
qed

text \<open>
  For pairwise distinct positions of the candidate list, as the dialogue gives them for
  one candidate, for all candidates and for hand-picked numbers without a repetition, the
  deleting loop raises nothing and removes from every category exactly the entries the
  picked candidates point at.
\<close>

lemma removal_of_distinct_selection:
  assumes "distinct idxs" and "\<forall>j\<in>set idxs. j < length (changes_to_remove chs ct p ix)"
  shows "\<exists>res. apply_removals (sorted_reverse idxs) (changes_to_remove chs ct p ix) chs = Inr res
    \<and> (\<forall>k. get_list res k = nths (get_list chs k)
          (- set (map item_index (filter (\<lambda>x. item_type x = k)
                (map ((!) (changes_to_remove chs ct p ix)) idxs)))))"
proof -
  let ?cands = "changes_to_remove chs ct p ix"
  have 1: "\<forall>j\<in>set (sorted_reverse idxs). j < length ?cands"
    using assms(2) by (simp add: sorted_reverse_def)
  have "sorted_wrt (<) (sort idxs)"
    using assms(1) by (simp add: strict_sorted_iff)
  then have "sorted_wrt (\<lambda>a b. item_type (?cands ! b) = item_type (?cands ! a)
          \<longrightarrow> item_index (?cands ! a) < item_index (?cands ! b)) (sort idxs)"
  proof (rule sorted_wrt_mono_rel [rotated])
    fix a b
    assume "a \<in> set (sort idxs)" and "b \<in> set (sort idxs)" and "a < b"
    with assms(2) have "a < b" and "b < length ?cands" by simp_all
    with changes_to_remove_sorted [of chs ct p ix]
    show "item_type (?cands ! b) = item_type (?cands ! a)
        \<longrightarrow> item_index (?cands ! a) < item_index (?cands ! b)"
      by (auto simp: sorted_wrt_iff_nth_less)
  qed
  then have 2: "sorted_wrt (\<lambda>a b. item_type (?cands ! a) = item_type (?cands ! b)
          \<longrightarrow> item_index (?cands ! b) < item_index (?cands ! a)) (sorted_reverse idxs)"
    by (simp add: sorted_reverse_def sorted_wrt_rev)
  have 3: "\<forall>j\<in>set (sorted_reverse idxs).
      item_index (?cands ! j) < length (get_list chs (item_type (?cands ! j)))"
    using assms(2) changes_to_remove_items [of _ chs ct p ix]
    by (simp add: sorted_reverse_def)
  have e: "set (map item_index (filter (\<lambda>x. item_type x = k) (map ((!) ?cands) (sorted_reverse idxs))))
      = set (map item_index (filter (\<lambda>x. item_type x = k) (map ((!) ?cands) idxs)))" for k
    by (simp add: sorted_reverse_def)
  from apply_removals_exact [OF 1 2 3] show ?thesis
    by (simp only: e)
qed

section \<open>A release without a readable store\<close>

text \<open>Loading a store whose file is absent or unreadable writes the initial document and
  returns it, or fails where the configuration names no project.\<close>

lemma load_not_stored:
  assumes "unreleased_file w = Missing \<or> unreleased_file w = Corrupt"
  shows "load_unreleased_json w = (case project_name (config_dict w) of
      Inl e \<Rightarrow> (Inl e, w)
    | Inr p \<Rightarrow>
        (Inr \<lparr>project = p, created = isoformat (clock w (reads w)),
            last_modified = isoformat (clock w (reads w + 2)), changes = empty_changes,
            total_changes = 0\<rparr>,
         w\<lparr>reads := reads w + 3,
           unreleased_file := Stored \<lparr>project = p, created = isoformat (clock w (reads w)),
             last_modified = isoformat (clock w (reads w + 2)), changes = empty_changes,
             total_changes = 0\<rparr>\<rparr>))"
proof (cases "project_name (config_dict w)")
  case (Inl e)
  with assms show ?thesis
    by (auto simp: load_unreleased_json.simps [of w] init_unreleased_json_error)
next
  case (Inr p)
  let ?d = "\<lparr>project = p, created = isoformat (clock w (reads w)),
            last_modified = isoformat (clock w (reads w + 2)), changes = empty_changes,
            total_changes = 0\<rparr>"
  let ?w' = "w\<lparr>reads := reads w + 3, unreleased_file := Stored ?d\<rparr>"
  have "load_unreleased_json ?w' = (Inr ?d, ?w')"
    by (rule load_Stored) simp
  with assms Inr show ?thesis
    by (auto simp: load_unreleased_json.simps [of w] init_unreleased_json_ok)
qed

text \<open>A release without a readable store writes neither a release file nor the changelog.\<close>

lemma release_without_store:
  assumes "unreleased_file w = Missing \<or> unreleased_file w = Corrupt"
  shows "(fst (release ver notes tag_git w) = Inr False \<or> fst (release ver notes tag_git w) = Inl KeyError)
    \<and> release_files (snd (release ver notes tag_git w)) = release_files w
    \<and> changelog_file (snd (release ver notes tag_git w)) = changelog_file w"
proof (cases "project_name (config_dict w)")
  case (Inl e)
  then have "e = KeyError"
    by (auto simp: project_name_def split: option.splits)
  with Inl assms show ?thesis
    by (simp add: release_def load_not_stored)
next
  case (Inr p)
  with assms show ?thesis
    by (simp add: release_def load_not_stored)
qed

end
